theory Spec2Isabelle
  imports Complex_Main "HOL-Library.Char_ord" "HOL-Library.List_Lexorder" "HOL-Library.Multiset"
    "HOL-Library.Log_Nat"
begin

section \<open>Double-precision numbers\<close>

text \<open>
  A JavaScript number is an IEEE 754 double. A finite double is a rational number with a
  significand of 53 bits, and the result of an arithmetic operation is the exact result
  rounded to the nearest such number, a tie going to the even significand.
  \<open>roundDouble\<close> is this rounding with no bound on the exponent; where the bound
  matters, in \<open>toJsInt\<close>, it is written out.
\<close>

text \<open>The integer nearest to \<open>x\<close>, the even one of the two at a tie.\<close>

definition roundEven :: "rat \<Rightarrow> int" where
  "roundEven x =
     (let f = \<lfloor>x\<rfloor>; d = x - of_int f
      in if d < 1 / 2 then f
         else if 1 / 2 < d then f + 1
         else if even f then f else f + 1)"

text \<open>The exponent \<open>e\<close> of a positive number: \<open>2 ^ e \<le> a < 2 ^ (e + 1)\<close>.\<close>

definition binade :: "rat \<Rightarrow> int" where
  "binade a =
     (let (p, q) = quotient_of a;
          k = int (floorlog 2 (nat p)) - int (floorlog 2 (nat q))
      in if power_int 2 k \<le> a then k else k - 1)"

text \<open>The distance of two neighbouring doubles at \<open>x\<close>.\<close>

definition ulp :: "rat \<Rightarrow> rat" where
  "ulp x = power_int 2 (binade \<bar>x\<bar> - 52)"

definition roundDouble :: "rat \<Rightarrow> rat" where
  "roundDouble x =
     (if x = 0 then 0
      else sgn x * (of_int (roundEven (\<bar>x\<bar> / ulp x)) * ulp x))"

text \<open>
  The value of \<^verbatim>\<open>parseInt\<close>: NaN, an infinity (\<open>Infinite True\<close> is the negative one)
  or a double that is an integer.
\<close>

datatype jsint = NaN | Infinite bool | Finite int

text \<open>
  The number of an integer, as \<^verbatim>\<open>parseInt\<close> makes it from the digits it has read:
  the nearest double, which is an infinity from \<open>2 ^ 1024\<close> on.
\<close>

definition toJsInt :: "int \<Rightarrow> jsint" where
  "toJsInt n =
     (let x = roundDouble (of_int n)
      in if power_int 2 1024 \<le> \<bar>x\<bar> then Infinite (n < 0) else Finite \<lfloor>x\<rfloor>)"

section \<open>JavaScript values of a request\<close>

text \<open>
  The review route reads its inputs from the JSON body of the request (POST, PUT) and from
  the query string (GET, PUT, DELETE), and validates them with \<^verbatim>\<open>!x\<close>,
  \<^verbatim>\<open>typeof x\<close>, \<^verbatim>\<open>parseInt(x)\<close>, \<^verbatim>\<open>isNaN\<close> and
  \<^verbatim>\<open>x.trim()\<close>. These built-ins are modelled after ECMAScript.

  A number that is neither zero nor infinite is carried by the digits of its shortest
  decimal form, as Number::toString has them: \<open>NumFin neg s n\<close> is the number
  \<open>\<plusminus> s * 10 ^ (n - k)\<close> where \<open>k\<close> is the number of decimal digits of \<open>s\<close>
  (so 4.7 is \<open>NumFin False 47 1\<close> and 6 is \<open>NumFin False 6 1\<close>). The two zeros are
  one value: the route cannot tell them apart. JSON has no NaN.
  A string is a list of code units below 256.
\<close>

datatype jsnum = NumZero | NumInf bool | NumFin bool nat int

datatype jsval =
    JUndefined
  | JNull
  | JBool bool
  | JNum jsnum
  | JStr string
  | JArr "jsval list"
  | JObj

text \<open>White space and line terminators of ECMAScript, among the code units below 256.\<close>

definition isWhiteSpace :: "char \<Rightarrow> bool" where
  "isWhiteSpace c \<longleftrightarrow>
     c \<in> set [CHR 0x09, CHR 0x0A, CHR 0x0B, CHR 0x0C, CHR 0x0D, CHR 0x20, CHR 0xA0]"

text \<open>\<^verbatim>\<open>String.prototype.trim\<close>.\<close>

definition trim :: "string \<Rightarrow> string" where
  "trim s = rev (dropWhile isWhiteSpace (rev (dropWhile isWhiteSpace s)))"

definition digitTable :: "(char \<times> nat) list" where
  "digitTable =
     [(CHR ''0'', 0), (CHR ''1'', 1), (CHR ''2'', 2), (CHR ''3'', 3), (CHR ''4'', 4),
      (CHR ''5'', 5), (CHR ''6'', 6), (CHR ''7'', 7), (CHR ''8'', 8), (CHR ''9'', 9),
      (CHR ''a'', 10), (CHR ''b'', 11), (CHR ''c'', 12), (CHR ''d'', 13), (CHR ''e'', 14),
      (CHR ''f'', 15),
      (CHR ''A'', 10), (CHR ''B'', 11), (CHR ''C'', 12), (CHR ''D'', 13), (CHR ''E'', 14),
      (CHR ''F'', 15)]"

text \<open>The value of a character as a digit of radix \<open>R\<close>, if it is one.\<close>

definition digitVal :: "nat \<Rightarrow> char \<Rightarrow> nat option" where
  "digitVal R c =
     (case map_of digitTable c of
        None \<Rightarrow> None
      | Some d \<Rightarrow> if d < R then Some d else None)"

text \<open>The longest prefix of radix-\<open>R\<close> digits, as digit values.\<close>

fun takeDigits :: "nat \<Rightarrow> string \<Rightarrow> nat list" where
  "takeDigits R [] = []"
| "takeDigits R (c # cs) =
     (case digitVal R c of None \<Rightarrow> [] | Some d \<Rightarrow> d # takeDigits R cs)"

text \<open>
  \<^verbatim>\<open>parseInt(string)\<close> with no radix argument: leading white space is skipped, a sign
  is read, a prefix \<^verbatim>\<open>0x\<close> selects radix 16, and the longest prefix of digits gives
  the result, NaN where there is no digit. The result is the double nearest to the
  integer the digits denote.
\<close>

definition parseIntStr :: "string \<Rightarrow> jsint" where
  "parseIntStr inputString =
     (let S = dropWhile isWhiteSpace inputString;
          sign = (if S \<noteq> [] \<and> hd S = CHR ''-'' then - 1 else (1::int));
          S1 = (if S \<noteq> [] \<and> (hd S = CHR ''+'' \<or> hd S = CHR ''-'') then tl S else S);
          hex = (take 2 S1 = ''0x'' \<or> take 2 S1 = ''0X'');
          R = (if hex then 16 else (10::nat));
          S2 = (if hex then drop 2 S1 else S1);
          Z = takeDigits R S2
      in if Z = [] then NaN
         else toJsInt (sign * int (foldl (\<lambda>a d. a * R + d) 0 Z)))"

definition digitChar :: "nat \<Rightarrow> char" where
  "digitChar d = ''0123456789'' ! d"

fun decDigits :: "nat \<Rightarrow> string" where
  "decDigits n =
     (if n < 10 then [digitChar n] else decDigits (n div 10) @ [digitChar (n mod 10)])"

declare decDigits.simps [simp del]

text \<open>Number::toString of a positive finite number with digits \<open>s\<close> and position \<open>n\<close>.\<close>

definition finToString :: "nat \<Rightarrow> int \<Rightarrow> string" where
  "finToString s n =
     (let ds = decDigits s; k = int (length ds) in
      if k \<le> n \<and> n \<le> 21 then ds @ replicate (nat (n - k)) (CHR ''0'')
      else if 0 < n \<and> n \<le> 21 then take (nat n) ds @ ''.'' @ drop (nat n) ds
      else if - 6 < n \<and> n \<le> 0 then ''0.'' @ replicate (nat (- n)) (CHR ''0'') @ ds
      else
        let e = n - 1;
            es = (if e < 0 then ''-'' else ''+'') @ decDigits (nat \<bar>e\<bar>)
        in if k = 1 then ds @ ''e'' @ es
           else take 1 ds @ ''.'' @ drop 1 ds @ ''e'' @ es)"

definition numToString :: "jsnum \<Rightarrow> string" where
  "numToString x =
     (case x of
        NumZero \<Rightarrow> ''0''
      | NumInf neg \<Rightarrow> (if neg then ''-Infinity'' else ''Infinity'')
      | NumFin neg s n \<Rightarrow> (if neg then ''-'' else []) @ finToString s n)"

fun joinComma :: "string list \<Rightarrow> string" where
  "joinComma [] = []"
| "joinComma [x] = x"
| "joinComma (x # y # ys) = x @ '','' @ joinComma (y # ys)"

text \<open>
  ToString. An array is the join of its elements, null and undefined elements being
  empty; \<open>JObj\<close> is a plain object, which prints as \<^verbatim>\<open>[object Object]\<close>.
\<close>

fun toString :: "jsval \<Rightarrow> string" where
  "toString JUndefined = ''undefined''"
| "toString JNull = ''null''"
| "toString (JBool b) = (if b then ''true'' else ''false'')"
| "toString (JNum x) = numToString x"
| "toString (JStr s) = s"
| "toString (JArr xs) =
     joinComma (map (\<lambda>x. if x = JNull \<or> x = JUndefined then [] else toString x) xs)"
| "toString JObj = ''[object Object]''"

text \<open>\<^verbatim>\<open>parseInt(x)\<close>: the argument is converted to a string first.\<close>

definition parseInt :: "jsval \<Rightarrow> jsint" where
  "parseInt v = parseIntStr (toString v)"

text \<open>\<^verbatim>\<open>!x\<close>: the values that are false in a condition.\<close>

fun falsy :: "jsval \<Rightarrow> bool" where
  "falsy JUndefined = True"
| "falsy JNull = True"
| "falsy (JBool b) = (\<not> b)"
| "falsy (JNum x) = (x = NumZero)"
| "falsy (JStr s) = (s = [])"
| "falsy (JArr xs) = False"
| "falsy JObj = False"

text \<open>\<^verbatim>\<open>typeof x === 'string'\<close>.\<close>

fun isString :: "jsval \<Rightarrow> bool" where
  "isString (JStr s) = True"
| "isString v = False"

text \<open>The text of a value that has passed \<^verbatim>\<open>typeof x === 'string'\<close>.\<close>

fun strOf :: "jsval \<Rightarrow> string" where
  "strOf (JStr s) = s"
| "strOf v = []"

section \<open>The record store\<close>

text \<open>
  The tables \<^verbatim>\<open>items\<close> and \<^verbatim>\<open>reviews\<close> of the schema. \<open>averageRating\<close> is a
  \<^verbatim>\<open>real\<close> column: its value is a double, held as the rational number it is.
  \<open>reviewSeq\<close> is the counter of the autoincrement key of \<^verbatim>\<open>reviews\<close>.
\<close>

record item =
  item_id :: int
  name :: string
  description :: "string option"
  category :: string
  imageUrl :: "string option"
  averageRating :: rat
  totalReviews :: int
  item_createdAt :: string
  item_updatedAt :: string

record review =
  review_id :: int
  itemId :: int
  userId :: string
  rating :: int
  title :: string
  comment :: "string option"
  review_createdAt :: string
  review_updatedAt :: string

record store =
  items :: "item list"
  reviews :: "review list"
  reviewSeq :: int

section \<open>The recomputation of an item's aggregate\<close>

text \<open>
  \<^verbatim>\<open>itemReviews.length > 0 ? itemReviews.reduce((sum, r) => sum + r.rating, 0) / itemReviews.length : 0\<close>

  The quotient is the double nearest to the exact quotient. The sum is taken as the
  integer it is: the additions of \<^verbatim>\<open>reduce\<close> are additions of doubles, which are exact
  as long as the absolute values of the ratings add up to at most \<open>2 ^ 53\<close>
  (\<open>doubleSum\<close> below is the sum with every addition rounded). An array has fewer than
  \<open>2 ^ 32\<close> elements, so the sum of ratings from 1 to 5 is far below that bound.
\<close>

definition averageOf :: "review list \<Rightarrow> rat" where
  "averageOf itemReviews =
     (if length itemReviews > 0
      then roundDouble
             (of_int (foldl (\<lambda>sum r. sum + rating r) 0 itemReviews) /
              of_int (int (length itemReviews)))
      else 0)"


text \<open>\<^verbatim>\<open>db.select().from(reviews).where(eq(reviews.itemId, itemId))\<close>\<close>

definition reviewsOfItem :: "store \<Rightarrow> int \<Rightarrow> review list" where
  "reviewsOfItem st i = filter (\<lambda>r. itemId r = i) (reviews st)"

text \<open>
  \<^verbatim>\<open>updateItemRating(itemId)\<close>: reads the reviews of the item, then updates every row of
  \<^verbatim>\<open>items\<close> whose id is \<open>i\<close>; \<open>now\<close> is the time read for \<^verbatim>\<open>updatedAt\<close>. The
  function has no test on the number of rows updated. Its \<^verbatim>\<open>catch\<close> block only
  rethrows a failure of the store, and the store of this model does not fail.
\<close>

definition updateItemRating :: "store \<Rightarrow> int \<Rightarrow> string \<Rightarrow> store" where
  "updateItemRating st i now =
     (let itemReviews = reviewsOfItem st i;
          avg = averageOf itemReviews
      in st\<lparr>items :=
              map (\<lambda>it. if item_id it = i
                        then it\<lparr>averageRating := avg,
                                totalReviews := int (length itemReviews),
                                item_updatedAt := now\<rparr>
                        else it)
                  (items st)\<rparr>)"

text \<open>\<^verbatim>\<open>db.select().from(items).where(eq(items.id, i)).limit(1)\<close>\<close>

definition selectItem :: "store \<Rightarrow> int \<Rightarrow> item list" where
  "selectItem st i = take 1 (filter (\<lambda>it. item_id it = i) (items st))"

text \<open>
  The arithmetic mean in the words of the specification: the sum of the ratings divided
  by their number, the division being that of doubles.
\<close>

definition spec_mean :: "review list \<Rightarrow> rat" where
  "spec_mean rs = roundDouble (of_int (sum_list (map rating rs)) / of_int (int (length rs)))"

section \<open>The review route\<close>

text \<open>
  A request body is the JSON object the handler destructures; a key that is absent is
  \<open>JUndefined\<close>. Where the body is no JSON, or is \<^verbatim>\<open>null\<close>, reading it throws, and the
  handler's \<^verbatim>\<open>catch\<close> answers 500: that request is \<open>None\<close>.
\<close>

record jsonBody =
  req_itemId :: jsval
  req_userId :: jsval
  req_rating :: jsval
  req_title :: jsval
  req_comment :: jsval

datatype exn = TypeError | SyntaxError | RangeError

text \<open>
  The JSON of a response: \<^verbatim>\<open>{error, code}\<close>, a row (or \<^verbatim>\<open>undefined\<close> where the
  returned list is empty), a list of rows, \<^verbatim>\<open>{message, id}\<close>, and the body of the
  \<^verbatim>\<open>catch\<close> block, \<^verbatim>\<open>'Internal server error: ' + message\<close>.
\<close>

datatype resbody =
    ErrorJson string "string option"
  | RowJson "review option"
  | RowsJson "review list"
  | DeletedJson string int
  | ServerError exn

datatype response = Response (status: nat) (body: resbody)

text \<open>
  \<^verbatim>\<open>parseInt(id)\<close> of a parameter of the query string, under the check
  \<^verbatim>\<open>!id || isNaN(parseInt(id))\<close>: the result is NaN where the check rejects.
\<close>

definition queryInt :: "string option \<Rightarrow> jsint" where
  "queryInt q = (case q of None \<Rightarrow> NaN | Some s \<Rightarrow> if s = [] then NaN else parseIntStr s)"

text \<open>
  \<^verbatim>\<open>parseInt(x)\<close> of a field of the body, under the check
  \<^verbatim>\<open>!x || isNaN(parseInt(x))\<close>: the result is NaN where the check rejects.
\<close>

definition fieldInt :: "jsval \<Rightarrow> jsint" where
  "fieldInt v = (if falsy v then NaN else parseInt v)"

text \<open>
  A number that is not finite cannot be a parameter of a query: the driver of the store
  throws its \<^verbatim>\<open>RangeError\<close>, and the \<^verbatim>\<open>catch\<close> block of the handler answers 500.
  (The driver is not in the repository; this is what it does with \<^verbatim>\<open>Infinity\<close>.)
\<close>

definition bindError :: response where
  "bindError = Response 500 (ServerError RangeError)"

text \<open>\<^verbatim>\<open>typeof x !== 'string' || x.trim() === ''\<close>\<close>

definition emptyString :: "jsval \<Rightarrow> bool" where
  "emptyString v \<longleftrightarrow> (if isString v then trim (strOf v) = [] else True)"

text \<open>\<^verbatim>\<open>!x || typeof x !== 'string' || x.trim() === ''\<close>\<close>

definition blankString :: "jsval \<Rightarrow> bool" where
  "blankString v \<longleftrightarrow> falsy v \<or> emptyString v"

text \<open>
  \<^verbatim>\<open>comment ? comment.trim() : null\<close>: a value that is true in a condition and is no
  string has no method \<^verbatim>\<open>trim\<close>, and the call throws.
\<close>

definition commentValue :: "jsval \<Rightarrow> exn + string option" where
  "commentValue c =
     (if falsy c then Inr None
      else if isString c then Inr (Some (trim (strOf c)))
      else Inl TypeError)"

text \<open>
  The key of a new row of \<^verbatim>\<open>reviews\<close> (\<^verbatim>\<open>AUTOINCREMENT\<close>): one more than the
  largest key the table has ever held.
\<close>

definition nextReviewId :: "store \<Rightarrow> int" where
  "nextReviewId st = max (reviewSeq st) (foldr max (map review_id (reviews st)) 0) + 1"

text \<open>\<^verbatim>\<open>db.insert(reviews).values({...}).returning()\<close>\<close>

definition insertReview ::
  "store \<Rightarrow> int \<Rightarrow> string \<Rightarrow> int \<Rightarrow> string \<Rightarrow> string option \<Rightarrow> string \<Rightarrow> string
     \<Rightarrow> review list \<times> store" where
  "insertReview st i u r t c created updated =
     (let row = \<lparr>review_id = nextReviewId st, itemId = i, userId = u, rating = r, title = t,
                  comment = c, review_createdAt = created, review_updatedAt = updated\<rparr>
      in ([row], st\<lparr>reviews := reviews st @ [row], reviewSeq := nextReviewId st\<rparr>))"

text \<open>\<^verbatim>\<open>db.select().from(reviews).where(eq(reviews.id, id)).limit(1)\<close>\<close>

definition selectReview :: "store \<Rightarrow> int \<Rightarrow> review list" where
  "selectReview st k = take 1 (filter (\<lambda>r. review_id r = k) (reviews st))"

text \<open>\<^verbatim>\<open>arr[0]\<close>, which is \<^verbatim>\<open>undefined\<close> on an empty list.\<close>

definition first :: "'a list \<Rightarrow> 'a option" where
  "first xs = (case xs of [] \<Rightarrow> None | x # _ \<Rightarrow> Some x)"

text \<open>
  \<^verbatim>\<open>POST\<close>: create a review. \<open>t1\<close> and \<open>t2\<close> are the times read for
  \<^verbatim>\<open>createdAt\<close> and \<^verbatim>\<open>updatedAt\<close> of the row, \<open>t3\<close> the time read by the
  recomputation.
\<close>

definition POST :: "store \<Rightarrow> jsonBody option \<Rightarrow> string \<Rightarrow> string \<Rightarrow> string \<Rightarrow> response \<times> store" where
  "POST st request t1 t2 t3 =
     (case request of
        None \<Rightarrow> (Response 500 (ServerError SyntaxError), st)
      | Some b \<Rightarrow>
         if fieldInt (req_itemId b) = NaN
         then (Response 400 (ErrorJson ''Valid itemId is required'' (Some ''INVALID_ITEM_ID'')), st)
         else if blankString (req_userId b)
         then (Response 400 (ErrorJson ''Valid userId is required'' (Some ''INVALID_USER_ID'')), st)
         else
          (case fieldInt (req_rating b) of
             NaN \<Rightarrow>
               (Response 400 (ErrorJson ''Rating must be an integer between 1 and 5''
                  (Some ''INVALID_RATING'')), st)
           | Infinite neg \<Rightarrow>
               (Response 400 (ErrorJson ''Rating must be an integer between 1 and 5''
                  (Some ''INVALID_RATING'')), st)
           | Finite r \<Rightarrow>
              if r < 1 \<or> r > 5
              then (Response 400 (ErrorJson ''Rating must be an integer between 1 and 5''
                      (Some ''INVALID_RATING'')), st)
              else if blankString (req_title b)
              then (Response 400 (ErrorJson ''Title is required'' (Some ''MISSING_TITLE'')), st)
              else
               (case fieldInt (req_itemId b) of
                  Finite i \<Rightarrow>
                    if selectItem st i = []
                    then (Response 404 (ErrorJson ''Item not found'' None), st)
                    else
                     (case commentValue (req_comment b) of
                        Inl e \<Rightarrow> (Response 500 (ServerError e), st)
                      | Inr c \<Rightarrow>
                         (let (newReview, st1) =
                                insertReview st i (trim (strOf (req_userId b))) r
                                  (trim (strOf (req_title b))) c t1 t2;
                              st2 = updateItemRating st1 i t3
                          in (Response 201 (RowJson (first newReview)), st2)))
                | _ \<Rightarrow> (bindError, st))))"

text \<open>
  The object \<^verbatim>\<open>updates\<close> of \<^verbatim>\<open>PUT\<close>: a key that was not assigned is \<open>None\<close>, and
  \<^verbatim>\<open>.set(updates)\<close> leaves its column as it is.
\<close>

record updates =
  u_rating :: "int option"
  u_title :: "string option"
  u_comment :: "string option option"
  u_updatedAt :: string

definition setReview :: "updates \<Rightarrow> review \<Rightarrow> review" where
  "setReview u r =
     r\<lparr>rating := (case u_rating u of None \<Rightarrow> rating r | Some n \<Rightarrow> n),
       title := (case u_title u of None \<Rightarrow> title r | Some t \<Rightarrow> t),
       comment := (case u_comment u of None \<Rightarrow> comment r | Some c \<Rightarrow> c),
       review_updatedAt := u_updatedAt u\<rparr>"

text \<open>\<^verbatim>\<open>db.update(reviews).set(updates).where(eq(reviews.id, id)).returning()\<close>\<close>

definition updateReview :: "store \<Rightarrow> int \<Rightarrow> updates \<Rightarrow> review list \<times> store" where
  "updateReview st k u =
     (let rows = map (\<lambda>r. if review_id r = k then setReview u r else r) (reviews st)
      in (filter (\<lambda>r. review_id r = k) rows, st\<lparr>reviews := rows\<rparr>))"

text \<open>
  The three blocks of \<^verbatim>\<open>PUT\<close> that check a field of the body and assign it to
  \<^verbatim>\<open>updates\<close>: each gives the response of its early return, or the value of its key
  (\<open>None\<close> where the field is absent from the body and the key is not assigned).
\<close>

definition ratingUpdate :: "jsval \<Rightarrow> response + int option" where
  "ratingUpdate v =
     (if v \<noteq> JUndefined
      then (case parseInt v of
              Finite r \<Rightarrow>
                if r < 1 \<or> r > 5
                then Inl (Response 400 (ErrorJson ''Rating must be an integer between 1 and 5''
                            (Some ''INVALID_RATING'')))
                else Inr (Some r)
            | _ \<Rightarrow>
                Inl (Response 400 (ErrorJson ''Rating must be an integer between 1 and 5''
                       (Some ''INVALID_RATING''))))
      else Inr None)"

definition titleUpdate :: "jsval \<Rightarrow> response + string option" where
  "titleUpdate v =
     (if v \<noteq> JUndefined
      then (if emptyString v
            then Inl (Response 400 (ErrorJson ''Title must be a non-empty string''
                        (Some ''INVALID_TITLE'')))
            else Inr (Some (trim (strOf v))))
      else Inr None)"

definition commentUpdate :: "jsval \<Rightarrow> exn + string option option" where
  "commentUpdate v =
     (if v \<noteq> JUndefined
      then (case commentValue v of Inl e \<Rightarrow> Inl e | Inr c \<Rightarrow> Inr (Some c))
      else Inr None)"

text \<open>
  \<^verbatim>\<open>PUT\<close>: update a review. \<open>qid\<close> is the parameter \<^verbatim>\<open>id\<close> of the query
  string (\<open>None\<close> where it is absent), \<open>now\<close> is the time read for \<^verbatim>\<open>updatedAt\<close> of
  the row, \<open>t3\<close> the time read by the recomputation.
\<close>

definition PUT :: "store \<Rightarrow> string option \<Rightarrow> jsonBody option \<Rightarrow> string \<Rightarrow> string \<Rightarrow> response \<times> store" where
  "PUT st qid request now t3 =
     (case queryInt qid of
        NaN \<Rightarrow> (Response 400 (ErrorJson ''Valid ID is required'' (Some ''INVALID_ID'')), st)
      | Infinite neg \<Rightarrow>
         (case request of
            None \<Rightarrow> (Response 500 (ServerError SyntaxError), st)
          | Some b \<Rightarrow> (bindError, st))
      | Finite k \<Rightarrow>
         (case request of
            None \<Rightarrow> (Response 500 (ServerError SyntaxError), st)
          | Some b \<Rightarrow>
             (case selectReview st k of
                [] \<Rightarrow> (Response 404 (ErrorJson ''Review not found'' None), st)
              | existingReview # _ \<Rightarrow>
                 (case ratingUpdate (req_rating b) of
                    Inl bad \<Rightarrow> (bad, st)
                  | Inr ur \<Rightarrow>
                     (case titleUpdate (req_title b) of
                        Inl bad \<Rightarrow> (bad, st)
                      | Inr ut \<Rightarrow>
                         (case commentUpdate (req_comment b) of
                            Inl e \<Rightarrow> (Response 500 (ServerError e), st)
                          | Inr uc \<Rightarrow>
                             (let u = \<lparr>u_rating = ur, u_title = ut, u_comment = uc,
                                        u_updatedAt = now\<rparr>;
                                  (updated, st1) = updateReview st k u;
                                  st2 = (if req_rating b \<noteq> JUndefined
                                         then updateItemRating st1 (itemId existingReview) t3
                                         else st1)
                              in (Response 200 (RowJson (first updated)), st2))))))))"

text \<open>\<^verbatim>\<open>db.delete(reviews).where(eq(reviews.id, id)).returning()\<close>\<close>

definition deleteReview :: "store \<Rightarrow> int \<Rightarrow> review list \<times> store" where
  "deleteReview st k =
     (filter (\<lambda>r. review_id r = k) (reviews st),
      st\<lparr>reviews := filter (\<lambda>r. review_id r \<noteq> k) (reviews st)\<rparr>)"

text \<open>
  \<^verbatim>\<open>DELETE\<close>: delete a review. \<open>qid\<close> is the parameter \<^verbatim>\<open>id\<close> of the
  query string, \<open>t3\<close> is the time read by the recomputation.
  \<^verbatim>\<open>deleted[0].id\<close> throws on an empty list, after the store has been written.
\<close>

definition DELETE :: "store \<Rightarrow> string option \<Rightarrow> string \<Rightarrow> response \<times> store" where
  "DELETE st qid t3 =
     (case queryInt qid of
        NaN \<Rightarrow> (Response 400 (ErrorJson ''Valid ID is required'' (Some ''INVALID_ID'')), st)
      | Infinite neg \<Rightarrow> (bindError, st)
      | Finite k \<Rightarrow>
         (case selectReview st k of
            [] \<Rightarrow> (Response 404 (ErrorJson ''Review not found'' None), st)
          | existingReview # _ \<Rightarrow>
             (let i = itemId existingReview;
                  (deleted, st1) = deleteReview st k;
                  st2 = updateItemRating st1 i t3
              in case deleted of
                   [] \<Rightarrow> (Response 500 (ServerError TypeError), st2)
                 | d # _ \<Rightarrow>
                     (Response 200 (DeletedJson ''Review deleted successfully'' (review_id d)),
                      st2))))"

section \<open>The list of reviews\<close>

text \<open>
  \<^verbatim>\<open>orderBy\<close>: the rows in the order of \<open>le\<close>, rows that compare equal staying in the
  order of the table. \<^verbatim>\<open>asc(column)\<close> and \<^verbatim>\<open>desc(column)\<close> compare the text of a
  column byte by byte.
\<close>

fun insertBy :: "('a \<Rightarrow> 'a \<Rightarrow> bool) \<Rightarrow> 'a \<Rightarrow> 'a list \<Rightarrow> 'a list" where
  "insertBy le x [] = [x]"
| "insertBy le x (y # ys) = (if le x y then x # y # ys else y # insertBy le x ys)"

definition orderBy :: "('a \<Rightarrow> 'a \<Rightarrow> bool) \<Rightarrow> 'a list \<Rightarrow> 'a list" where
  "orderBy le rows = foldr (insertBy le) rows []"

definition asc :: "(review \<Rightarrow> string) \<Rightarrow> review \<Rightarrow> review \<Rightarrow> bool" where
  "asc col a b \<longleftrightarrow> col a \<le> col b"

definition desc :: "(review \<Rightarrow> string) \<Rightarrow> review \<Rightarrow> review \<Rightarrow> bool" where
  "desc col a b \<longleftrightarrow> col b \<le> col a"

text \<open>
  \<^verbatim>\<open>.limit(l).offset(off)\<close> for a positive limit and an offset that is not negative:
  the rows after the first \<open>off\<close>, at most \<open>l\<close> of them.
\<close>

definition limitOffset :: "int \<Rightarrow> int \<Rightarrow> 'a list \<Rightarrow> 'a list" where
  "limitOffset l off rows = take (nat l) (drop (nat off) rows)"

text \<open>\<^verbatim>\<open>Math.min(x, 100)\<close>\<close>

definition min100 :: "jsint \<Rightarrow> jsint" where
  "min100 x =
     (case x of
        NaN \<Rightarrow> NaN
      | Infinite neg \<Rightarrow> (if neg then Infinite True else Finite 100)
      | Finite n \<Rightarrow> Finite (min n 100))"

text \<open>
  \<^verbatim>\<open>const orderColumn = sort === 'createdAt' ? reviews.createdAt : reviews.createdAt;\<close>
  and the \<^verbatim>\<open>orderBy\<close> that follows it.
\<close>

definition orderedRows :: "string \<Rightarrow> string \<Rightarrow> review list \<Rightarrow> review list" where
  "orderedRows sortParam orderParam rows =
     (let orderColumn =
            (if sortParam = ''createdAt'' then review_createdAt else review_createdAt)
      in if orderParam = ''asc'' then orderBy (asc orderColumn) rows
         else orderBy (desc orderColumn) rows)"

text \<open>\<^verbatim>\<open>searchParams.get(name) ?? d\<close>\<close>

definition orDefault :: "string option \<Rightarrow> string \<Rightarrow> string" where
  "orDefault q d = (case q of None \<Rightarrow> d | Some s \<Rightarrow> s)"

text \<open>
  The rows the list is taken from: all reviews, or those of the item of the parameter
  \<^verbatim>\<open>itemId\<close>; \<open>Inl\<close> is the answer where the parameter is no number, or is one that
  the query cannot take.
\<close>

definition itemFilter :: "store \<Rightarrow> string option \<Rightarrow> response + review list" where
  "itemFilter st qitemId =
     (case qitemId of
        None \<Rightarrow> Inr (reviews st)
      | Some s \<Rightarrow>
         if s = [] then Inr (reviews st)
         else (case parseIntStr s of
                 NaN \<Rightarrow> Inl (Response 400 (ErrorJson ''Valid itemId is required''
                                (Some ''INVALID_ITEM_ID'')))
               | Infinite neg \<Rightarrow> Inl bindError
               | Finite i \<Rightarrow> Inr (reviewsOfItem st i)))"

text \<open>
  \<^verbatim>\<open>GET\<close>: one review by id, or the list of reviews. The arguments after the store are
  the parameters \<^verbatim>\<open>id\<close>, \<^verbatim>\<open>itemId\<close>, \<^verbatim>\<open>limit\<close>, \<^verbatim>\<open>offset\<close>, \<^verbatim>\<open>sort\<close> and
  \<^verbatim>\<open>order\<close> of the query string. Where the limit is NaN, negative, zero or the
  negative infinity, or the offset is NaN, infinite, negative or above \<open>2 ^ 53\<close>, what
  the query builder and the driver make of them is not in the repository (it differs
  between their versions): the answer is then the parameter \<open>oddPage\<close>, applied to the
  limit, the offset and the ordered rows.
\<close>

definition GET ::
  "(jsint \<Rightarrow> jsint \<Rightarrow> review list \<Rightarrow> response) \<Rightarrow> store \<Rightarrow> string option \<Rightarrow> string option \<Rightarrow>
     string option \<Rightarrow> string option \<Rightarrow> string option \<Rightarrow> string option \<Rightarrow> response" where
  "GET oddPage st qid qitemId qlimit qoffset qsort qorder =
     (let limit = min100 (parseIntStr (orDefault qlimit ''10''));
          offset = parseIntStr (orDefault qoffset ''0'');
          sortParam = orDefault qsort ''createdAt'';
          orderParam = orDefault qorder ''desc''
      in if qid \<noteq> None \<and> qid \<noteq> Some []
         then (case queryInt qid of
                 NaN \<Rightarrow> Response 400 (ErrorJson ''Valid ID is required'' (Some ''INVALID_ID''))
               | Infinite neg \<Rightarrow> bindError
               | Finite k \<Rightarrow>
                  (case selectReview st k of
                     [] \<Rightarrow> Response 404 (ErrorJson ''Review not found'' None)
                   | review # _ \<Rightarrow> Response 200 (RowJson (Some review))))
         else
          (case itemFilter st qitemId of
             Inl bad \<Rightarrow> bad
           | Inr rows \<Rightarrow>
              (case (limit, offset) of
                 (Finite l, Finite off) \<Rightarrow>
                   if 0 < l \<and> 0 \<le> off \<and> off \<le> 2 ^ 53
                   then Response 200
                          (RowsJson (limitOffset l off (orderedRows sortParam orderParam rows)))
                   else oddPage limit offset (orderedRows sortParam orderParam rows)
               | _ \<Rightarrow> oddPage limit offset (orderedRows sortParam orderParam rows))))"

section \<open>Sequences of requests\<close>

text \<open>A mutation request, with the times its handler reads.\<close>

datatype request =
    Create "jsonBody option" string string string
  | Update "string option" "jsonBody option" string string
  | Delete "string option" string

fun handle :: "store \<Rightarrow> request \<Rightarrow> response \<times> store" where
  "handle st (Create b t1 t2 t3) = POST st b t1 t2 t3"
| "handle st (Update qid b now t3) = PUT st qid b now t3"
| "handle st (Delete qid t3) = DELETE st qid t3"

text \<open>Requests handled one after the other, each on the store the one before left.\<close>

fun run :: "store \<Rightarrow> request list \<Rightarrow> store" where
  "run st [] = st"
| "run st (q # qs) = run (snd (handle st q)) qs"

text \<open>
  The aggregate of an item agrees with the reviews of the store: the mean of their
  ratings, or 0 where there is none, and their number.
\<close>

definition aggregateOk :: "store \<Rightarrow> item \<Rightarrow> bool" where
  "aggregateOk st it \<longleftrightarrow>
     averageRating it =
       (if reviewsOfItem st (item_id it) = [] then 0
        else spec_mean (reviewsOfItem st (item_id it))) \<and>
     totalReviews it = int (length (reviewsOfItem st (item_id it)))"

definition consistent :: "store \<Rightarrow> bool" where
  "consistent st \<longleftrightarrow> list_all (aggregateOk st) (items st)"

text \<open>The primary key of \<^verbatim>\<open>reviews\<close>: no two rows share an id.\<close>

definition reviewKeys :: "store \<Rightarrow> bool" where
  "reviewKeys st \<longleftrightarrow> distinct (map review_id (reviews st))"

definition ratingsInRange :: "review list \<Rightarrow> bool" where
  "ratingsInRange rs \<longleftrightarrow> list_all (\<lambda>r. 1 \<le> rating r \<and> rating r \<le> 5) rs"

definition averagesInRange :: "store \<Rightarrow> bool" where
  "averagesInRange st \<longleftrightarrow> list_all (\<lambda>it. 0 \<le> averageRating it \<and> averageRating it \<le> 5) (items st)"

text \<open>
  A response of success; a request whose handler calls \<^verbatim>\<open>updateItemRating\<close> where it
  succeeds; and the item id that call is given: the item id of the body for a \<open>Create\<close>,
  that of the review found for an \<open>Update\<close> or a \<open>Delete\<close>.
\<close>

definition succeeded :: "response \<Rightarrow> bool" where
  "succeeded r \<longleftrightarrow> status r = 200 \<or> status r = 201"

definition recomputes :: "request \<Rightarrow> bool" where
  "recomputes q =
     (case q of
        Create b t1 t2 t3 \<Rightarrow> True
      | Update qid b now t3 \<Rightarrow> (case b of None \<Rightarrow> False | Some bd \<Rightarrow> req_rating bd \<noteq> JUndefined)
      | Delete qid t3 \<Rightarrow> True)"

definition affectedItem :: "store \<Rightarrow> request \<Rightarrow> int option" where
  "affectedItem st q =
     (case q of
        Create b t1 t2 t3 \<Rightarrow>
          (case b of
             None \<Rightarrow> None
           | Some bd \<Rightarrow> (case fieldInt (req_itemId bd) of Finite i \<Rightarrow> Some i | _ \<Rightarrow> None))
      | Update qid b now t3 \<Rightarrow>
          (case queryInt qid of
             Finite k \<Rightarrow> map_option itemId (first (selectReview st k))
           | _ \<Rightarrow> None)
      | Delete qid t3 \<Rightarrow>
          (case queryInt qid of
             Finite k \<Rightarrow> map_option itemId (first (selectReview st k))
           | _ \<Rightarrow> None))"

section \<open>Handlers that run at the same time\<close>

text \<open>
  A handler gives way to other requests at each \<^verbatim>\<open>await\<close>. \<^verbatim>\<open>POST\<close> awaits the store
  four times: the lookup of the item, the insertion of the review, and, in
  \<^verbatim>\<open>updateItemRating\<close>, the selection of the item's reviews and the update of the item.
  A \<open>task\<close> is a \<^verbatim>\<open>POST\<close> between two of these; \<open>advance\<close> runs it up to its next access
  to the store, that access included.
\<close>

text \<open>The second half of \<^verbatim>\<open>updateItemRating\<close>: the update, from the reviews read before.\<close>

definition writeItemRating :: "store \<Rightarrow> int \<Rightarrow> review list \<Rightarrow> string \<Rightarrow> store" where
  "writeItemRating st i itemReviews now =
     st\<lparr>items :=
          map (\<lambda>it. if item_id it = i
                    then it\<lparr>averageRating := averageOf itemReviews,
                            totalReviews := int (length itemReviews),
                            item_updatedAt := now\<rparr>
                    else it)
              (items st)\<rparr>"

datatype task =
    Received "jsonBody option" string string string
  | Found int int jsonBody string string string
  | Inserted "review list" int string
  | Selected "review list" "review list" int string
  | Finished response

fun advance :: "store \<Rightarrow> task \<Rightarrow> task \<times> store" where
  "advance st (Received request t1 t2 t3) =
     (case request of
        None \<Rightarrow> (Finished (Response 500 (ServerError SyntaxError)), st)
      | Some b \<Rightarrow>
         if fieldInt (req_itemId b) = NaN
         then (Finished (Response 400 (ErrorJson ''Valid itemId is required''
                 (Some ''INVALID_ITEM_ID''))), st)
         else if blankString (req_userId b)
         then (Finished (Response 400 (ErrorJson ''Valid userId is required''
                 (Some ''INVALID_USER_ID''))), st)
         else
          (case fieldInt (req_rating b) of
             NaN \<Rightarrow>
               (Finished (Response 400 (ErrorJson ''Rating must be an integer between 1 and 5''
                  (Some ''INVALID_RATING''))), st)
           | Infinite neg \<Rightarrow>
               (Finished (Response 400 (ErrorJson ''Rating must be an integer between 1 and 5''
                  (Some ''INVALID_RATING''))), st)
           | Finite r \<Rightarrow>
              if r < 1 \<or> r > 5
              then (Finished (Response 400
                      (ErrorJson ''Rating must be an integer between 1 and 5''
                         (Some ''INVALID_RATING''))), st)
              else if blankString (req_title b)
              then (Finished (Response 400 (ErrorJson ''Title is required''
                      (Some ''MISSING_TITLE''))), st)
              else
               (case fieldInt (req_itemId b) of
                  Finite i \<Rightarrow>
                    if selectItem st i = []
                    then (Finished (Response 404 (ErrorJson ''Item not found'' None)), st)
                    else (Found i r b t1 t2 t3, st)
                | _ \<Rightarrow> (Finished bindError, st))))"
| "advance st (Found i r b t1 t2 t3) =
     (case commentValue (req_comment b) of
        Inl e \<Rightarrow> (Finished (Response 500 (ServerError e)), st)
      | Inr c \<Rightarrow>
         (let (newReview, st1) =
                insertReview st i (trim (strOf (req_userId b))) r (trim (strOf (req_title b)))
                  c t1 t2
          in (Inserted newReview i t3, st1)))"
| "advance st (Inserted newReview i t3) = (Selected newReview (reviewsOfItem st i) i t3, st)"
| "advance st (Selected newReview itemReviews i t3) =
     (Finished (Response 201 (RowJson (first newReview))), writeItemRating st i itemReviews t3)"
| "advance st (Finished response) = (Finished response, st)"

text \<open>
  A schedule names, step by step, the task that advances. Every interleaving of the
  handlers at their \<^verbatim>\<open>await\<close>s is a schedule.
\<close>

fun interleave :: "store \<Rightarrow> task list \<Rightarrow> nat list \<Rightarrow> task list \<times> store" where
  "interleave st ts [] = (ts, st)"
| "interleave st ts (p # ps) =
     (if p < length ts
      then (let (t, st1) = advance st (ts ! p) in interleave st1 (ts[p := t]) ps)
      else interleave st ts ps)"

text \<open>The schedule that runs the tasks \<open>k\<close>, ..., \<open>k + n - 1\<close> one after the other.\<close>

definition serialSchedule :: "nat \<Rightarrow> nat \<Rightarrow> nat list" where
  "serialSchedule k n = concat (map (\<lambda>p. [p, p, p, p]) [k..<k + n])"

text \<open>A \<^verbatim>\<open>POST\<close> of the body \<open>b\<close> with the times \<open>ts\<close>, as a task and as a request.\<close>

definition received :: "jsonBody \<Rightarrow> string \<times> string \<times> string \<Rightarrow> task" where
  "received b ts = (case ts of (t1, t2, t3) \<Rightarrow> Received (Some b) t1 t2 t3)"

definition create :: "jsonBody \<Rightarrow> string \<times> string \<times> string \<Rightarrow> request" where
  "create b ts = (case ts of (t1, t2, t3) \<Rightarrow> Create (Some b) t1 t2 t3)"

text \<open>
  A body for item \<open>i\<close> with rating 5 that passes every check of \<^verbatim>\<open>POST\<close>, and whose
  comment does not make the handler throw.
\<close>

definition validFive :: "int \<Rightarrow> jsonBody \<Rightarrow> bool" where
  "validFive i b \<longleftrightarrow>
     fieldInt (req_itemId b) = Finite i \<and> \<not> blankString (req_userId b) \<and>
     fieldInt (req_rating b) = Finite 5 \<and> \<not> blankString (req_title b) \<and>
     commentValue (req_comment b) \<noteq> Inl TypeError"

text \<open>A task that has answered; the number of rows a task has inserted.\<close>

fun finished :: "task \<Rightarrow> bool" where
  "finished (Finished response) = True"
| "finished _ = False"

fun inserts :: "task \<Rightarrow> nat" where
  "inserts (Received request t1 t2 t3) = 0"
| "inserts (Found i r b t1 t2 t3) = 0"
| "inserts _ = 1"

text \<open>
  A task of a valid creation with rating 5 for item \<open>i\<close>, where the item has \<open>m\<close>
  reviews: the reviews it has read are some of them, and it answers 201.
\<close>

fun fiveTask :: "int \<Rightarrow> nat \<Rightarrow> task \<Rightarrow> bool" where
  "fiveTask i m (Received request t1 t2 t3) =
     (case request of None \<Rightarrow> False | Some b \<Rightarrow> validFive i b)"
| "fiveTask i m (Found j r b t1 t2 t3) =
     (j = i \<and> r = 5 \<and> commentValue (req_comment b) \<noteq> Inl TypeError)"
| "fiveTask i m (Inserted newReview j t3) = (j = i)"
| "fiveTask i m (Selected newReview itemReviews j t3) =
     (j = i \<and> itemReviews \<noteq> [] \<and> list_all (\<lambda>r. rating r = 5) itemReviews \<and>
      length itemReviews \<le> m)"
| "fiveTask i m (Finished response) = (status response = 201)"

text \<open>
  What every interleaving keeps: the reviews of item \<open>i\<close> are the rows the tasks have
  inserted, all of rating 5; and once a task has answered, the item has the average 5
  and a number of reviews between 1 and the number of its rows.
\<close>

definition fiveInv :: "int \<Rightarrow> store \<Rightarrow> task list \<Rightarrow> bool" where
  "fiveInv i st ts \<longleftrightarrow>
     length (reviewsOfItem st i) = sum_list (map inserts ts) \<and>
     list_all (\<lambda>r. rating r = 5) (reviewsOfItem st i) \<and>
     list_all (fiveTask i (length (reviewsOfItem st i))) ts \<and>
     (case selectItem st i of
        [it] \<Rightarrow>
          (if list_ex finished ts
           then averageRating it = 5 \<and> 1 \<le> totalReviews it \<and>
                totalReviews it \<le> int (length (reviewsOfItem st i))
           else True)
      | _ \<Rightarrow> False)"

text \<open>
  Item \<open>i\<close> is in the store, has \<open>m\<close> reviews, all of rating 5, and, where it has any,
  its aggregate is \<open>m\<close> and 5.
\<close>

definition fiveStarItem :: "store \<Rightarrow> int \<Rightarrow> nat \<Rightarrow> bool" where
  "fiveStarItem st i m \<longleftrightarrow>
     length (reviewsOfItem st i) = m \<and>
     list_all (\<lambda>r. rating r = 5) (reviewsOfItem st i) \<and>
     (case selectItem st i of
        [it] \<Rightarrow> (if 0 < m then totalReviews it = int m \<and> averageRating it = 5 else True)
      | _ \<Rightarrow> False)"

section \<open>Example stores and requests\<close>

definition exampleItem :: "int \<Rightarrow> item" where
  "exampleItem i =
     \<lparr>item_id = i, name = ''Item'', description = None, category = ''books'',
      imageUrl = None, averageRating = 0, totalReviews = 0,
      item_createdAt = ''2024-01-01'', item_updatedAt = ''2024-01-01''\<rparr>"

definition exampleReview :: "int \<Rightarrow> int \<Rightarrow> int \<Rightarrow> review" where
  "exampleReview k i r =
     \<lparr>review_id = k, itemId = i, userId = ''user'', rating = r, title = ''Title'',
      comment = None, review_createdAt = ''2024-01-02'', review_updatedAt = ''2024-01-02''\<rparr>"

text \<open>Two items and three reviews, the aggregates not yet computed.\<close>

definition exampleStore :: store where
  "exampleStore =
     \<lparr>items = [exampleItem 1, exampleItem 2],
      reviews = [exampleReview 1 1 4, exampleReview 2 1 2, exampleReview 3 2 5],
      reviewSeq = 3\<rparr>"

text \<open>Two new items and no review.\<close>

definition freshStore :: store where
  "freshStore = \<lparr>items = [exampleItem 1, exampleItem 2], reviews = [], reviewSeq = 0\<rparr>"

text \<open>A review of an item that the store does not hold.\<close>

definition orphanStore :: store where
  "orphanStore = \<lparr>items = [exampleItem 1], reviews = [exampleReview 7 9 3], reviewSeq = 7\<rparr>"

text \<open>The body \<^verbatim>\<open>{itemId: i, userId: "user", rating: r, title: "Title"}\<close>.\<close>

definition exampleBody :: "jsval \<Rightarrow> jsval \<Rightarrow> jsonBody" where
  "exampleBody i r =
     \<lparr>req_itemId = i, req_userId = JStr ''user'', req_rating = r, req_title = JStr ''Title'',
      req_comment = JUndefined\<rparr>"

text \<open>The body \<^verbatim>\<open>{itemId: 1, userId: "user", rating: 5, title: "Title"}\<close>.\<close>

definition fiveStars :: jsonBody where
  "fiveStars = exampleBody (JNum (NumFin False 1 1)) (JNum (NumFin False 5 1))"

text \<open>
  The body \<^verbatim>\<open>{itemId: "1", userId: "other", rating: "5", title: "Great", comment: " fine "}\<close>.
\<close>

definition fiveStarsOther :: jsonBody where
  "fiveStarsOther =
     \<lparr>req_itemId = JStr ''1'', req_userId = JStr ''other'', req_rating = JStr ''5'',
      req_title = JStr ''Great'', req_comment = JStr '' fine ''\<rparr>"

text \<open>An item with three reviews of ratings 4, 3 and 3.\<close>

definition thirdsStore :: store where
  "thirdsStore =
     \<lparr>items = [exampleItem 1],
      reviews = [exampleReview 1 1 4, exampleReview 2 1 3, exampleReview 3 1 3],
      reviewSeq = 3\<rparr>"

text \<open>Three reviews that were not created in the order of their ids.\<close>

definition datedStore :: store where
  "datedStore =
     \<lparr>items = [exampleItem 1],
      reviews = [(exampleReview 1 1 4)\<lparr>review_createdAt := ''2024-03-01''\<rparr>,
                 (exampleReview 2 1 3)\<lparr>review_createdAt := ''2024-01-01''\<rparr>,
                 (exampleReview 3 1 5)\<lparr>review_createdAt := ''2024-02-01''\<rparr>],
      reviewSeq = 3\<rparr>"

section \<open>Properties of the rounding\<close>

lemma roundEven_of_int [simp]: "roundEven (of_int m) = m"
  by (simp add: roundEven_def)

lemma roundEven_ge: "of_int K \<le> x \<Longrightarrow> K \<le> roundEven x"
proof -
  assume "of_int K \<le> x"
  then have "K \<le> \<lfloor>x\<rfloor>" by (simp add: le_floor_iff)
  then show ?thesis by (auto simp: roundEven_def Let_def)
qed

lemma roundEven_le: "x \<le> of_int K \<Longrightarrow> roundEven x \<le> K"
proof (cases "x = of_int K")
  case True
  then show ?thesis by simp
next
  case False
  assume "x \<le> of_int K"
  with False have "x < of_int K" by simp
  then have "\<lfloor>x\<rfloor> < K" by (simp add: floor_less_iff)
  then show ?thesis by (auto simp: roundEven_def Let_def)
qed

lemma pow2_diff_nat: "power_int (2::rat) (int m - int n) = 2 ^ m / 2 ^ n"
  by (subst power_int_diff) simp_all

lemma binade_bounds:
  assumes "0 < a"
  shows "power_int 2 (binade a) \<le> a \<and> a < power_int 2 (binade a + 1)"
proof -
  obtain p q where pq: "quotient_of a = (p, q)" by (cases "quotient_of a")
  then have q: "0 < q" and a: "a = of_int p / of_int q"
    using quotient_of_denom_pos quotient_of_div by auto
  from assms a q have p: "0 < p"
    by (simp add: zero_less_divide_iff)
  let ?bp = "floorlog 2 (nat p)" and ?bq = "floorlog 2 (nat q)"
  let ?k = "int ?bp - int ?bq"
  from p have bp: "2 ^ (?bp - 1) \<le> nat p" "nat p < 2 ^ ?bp"
    using floorlog_bounds [of "nat p" 2] by auto
  from q have bq: "2 ^ (?bq - 1) \<le> nat q" "nat q < 2 ^ ?bq"
    using floorlog_bounds [of "nat q" 2] by auto
  from p have bp1: "1 \<le> ?bp" by (simp add: floorlog_def)
  from q have bq1: "1 \<le> ?bq" by (simp add: floorlog_def)
  have P: "(2::rat) ^ (?bp - 1) \<le> of_int p" "(of_int p :: rat) < 2 ^ ?bp"
  proof -
    from bp(1) have "(of_nat (2 ^ (?bp - 1)) :: rat) \<le> of_nat (nat p)" by (simp only: of_nat_le_iff)
    with p show "(2::rat) ^ (?bp - 1) \<le> of_int p" by simp
    from bp(2) have "(of_nat (nat p) :: rat) < of_nat (2 ^ ?bp)" by (simp only: of_nat_less_iff)
    with p show "(of_int p :: rat) < 2 ^ ?bp" by simp
  qed
  have Q: "(2::rat) ^ (?bq - 1) \<le> of_int q" "(of_int q :: rat) < 2 ^ ?bq"
  proof -
    from bq(1) have "(of_nat (2 ^ (?bq - 1)) :: rat) \<le> of_nat (nat q)" by (simp only: of_nat_le_iff)
    with q show "(2::rat) ^ (?bq - 1) \<le> of_int q" by simp
    from bq(2) have "(of_nat (nat q) :: rat) < of_nat (2 ^ ?bq)" by (simp only: of_nat_less_iff)
    with q show "(of_int q :: rat) < 2 ^ ?bq" by simp
  qed
  have qpos: "(0::rat) < of_int q" using q by simp
  have up: "a < power_int 2 (?k + 1)"
  proof -
    from bq1 have "?k + 1 = int ?bp - int (?bq - 1)"
      by simp
    then have "power_int (2::rat) (?k + 1) = power_int 2 (int ?bp - int (?bq - 1))"
      by (rule arg_cong)
    also have "\<dots> = 2 ^ ?bp / 2 ^ (?bq - 1)"
      by (rule pow2_diff_nat)
    finally have "power_int (2::rat) (?k + 1) = 2 ^ ?bp / 2 ^ (?bq - 1)" .
    moreover have "a < 2 ^ ?bp / 2 ^ (?bq - 1)"
      unfolding a
    proof (rule frac_less)
      show "(0::rat) \<le> of_int p" using p by simp
      show "(of_int p :: rat) < 2 ^ ?bp" by (rule P(2))
      show "(0::rat) < 2 ^ (?bq - 1)" by simp
      show "(2::rat) ^ (?bq - 1) \<le> of_int q" by (rule Q(1))
    qed
    ultimately show ?thesis by simp
  qed
  have lo: "power_int 2 (?k - 1) \<le> a"
  proof -
    from bp1 have "?k - 1 = int (?bp - 1) - int ?bq"
      by simp
    then have "power_int (2::rat) (?k - 1) = power_int 2 (int (?bp - 1) - int ?bq)"
      by (rule arg_cong)
    also have "\<dots> = 2 ^ (?bp - 1) / 2 ^ ?bq"
      by (rule pow2_diff_nat)
    finally have "power_int (2::rat) (?k - 1) = 2 ^ (?bp - 1) / 2 ^ ?bq" .
    moreover have "2 ^ (?bp - 1) / 2 ^ ?bq \<le> a"
      unfolding a
    proof (rule frac_le)
      show "(0::rat) \<le> of_int p" using p by simp
      show "(2::rat) ^ (?bp - 1) \<le> of_int p" by (rule P(1))
      show "(0::rat) < of_int q" by (rule qpos)
      show "(of_int q :: rat) \<le> 2 ^ ?bq" using Q(2) by simp
    qed
    ultimately show ?thesis by simp
  qed
  show ?thesis
  proof (cases "power_int 2 ?k \<le> a")
    case True
    with up pq show ?thesis by (simp add: binade_def)
  next
    case False
    then have "binade a = ?k - 1" using pq by (simp add: binade_def)
    with False lo show ?thesis by simp
  qed
qed


lemma ulp_pos: "0 < ulp x"
  by (simp add: ulp_def)

lemma roundDouble_0 [simp]: "roundDouble 0 = 0"
  by (simp add: roundDouble_def)

lemma roundDouble_pos: "0 < a \<Longrightarrow> roundDouble a = of_int (roundEven (a / ulp a)) * ulp a"
  by (simp add: roundDouble_def)

lemma roundDouble_minus: "roundDouble (- x) = - roundDouble x"
  by (simp add: roundDouble_def ulp_def)

lemma roundDouble_ge:
  assumes "0 < a" "of_int K * ulp a \<le> a"
  shows "of_int K * ulp a \<le> roundDouble a"
proof -
  from assms(2) ulp_pos [of a] have "of_int K \<le> a / ulp a"
    by (simp add: le_divide_eq)
  then have "K \<le> roundEven (a / ulp a)"
    by (rule roundEven_ge)
  then have "(of_int K :: rat) \<le> of_int (roundEven (a / ulp a))"
    by simp
  with ulp_pos [of a] show ?thesis
    by (simp add: roundDouble_pos [OF assms(1)])
qed

lemma roundDouble_le:
  assumes "0 < a" "a \<le> of_int K * ulp a"
  shows "roundDouble a \<le> of_int K * ulp a"
proof -
  from assms(2) ulp_pos [of a] have "a / ulp a \<le> of_int K"
    by (simp add: divide_le_eq)
  then have "roundEven (a / ulp a) \<le> K"
    by (rule roundEven_le)
  then have "(of_int (roundEven (a / ulp a)) :: rat) \<le> of_int K"
    by simp
  with ulp_pos [of a] show ?thesis
    by (simp add: roundDouble_pos [OF assms(1)])
qed

lemma ulp_grid:
  assumes "0 < a" "binade a \<le> 52"
  shows "of_int (m * 2 ^ nat (52 - binade a)) * ulp a = of_int m"
proof -
  let ?e = "binade a"
  from assms(2) have "power_int (2::rat) (52 - ?e) = 2 ^ nat (52 - ?e)"
    by (simp add: power_int_def)
  moreover have "power_int (2::rat) (52 - ?e) * power_int 2 (?e - 52) = 1"
    by (simp flip: power_int_add)
  ultimately have "(2::rat) ^ nat (52 - ?e) * ulp a = 1"
    using assms(1) by (simp add: ulp_def)
  then have "of_int m * ((2::rat) ^ nat (52 - ?e) * ulp a) = of_int m"
    by simp
  then show ?thesis
    by (simp add: mult.assoc)
qed

lemma binade_le:
  assumes "0 < a" "a < power_int 2 n"
  shows "binade a < n"
proof (rule ccontr)
  assume "\<not> binade a < n"
  then have "n \<le> binade a" by simp
  then have "power_int (2::rat) n \<le> power_int 2 (binade a)"
    by (intro power_int_increasing) simp_all
  with binade_bounds [OF assms(1)] assms(2) show False
    by simp
qed

lemma binade_ge:
  assumes "0 < a" "power_int 2 n \<le> a"
  shows "n \<le> binade a"
proof (rule ccontr)
  assume "\<not> n \<le> binade a"
  then have "binade a + 1 \<le> n" by simp
  then have "power_int (2::rat) (binade a + 1) \<le> power_int 2 n"
    by (intro power_int_increasing) simp_all
  with binade_bounds [OF assms(1)] assms(2) show False
    by simp
qed

lemma roundDouble_grid:
  assumes "0 < a" "binade a \<le> 52"
  shows "a \<le> of_int m \<Longrightarrow> roundDouble a \<le> of_int m"
    and "of_int m \<le> a \<Longrightarrow> of_int m \<le> roundDouble a"
  using roundDouble_le [OF assms(1), of "m * 2 ^ nat (52 - binade a)"]
    roundDouble_ge [OF assms(1), of "m * 2 ^ nat (52 - binade a)"]
  unfolding ulp_grid [OF assms] by simp_all

lemma roundDouble_exact_pos:
  assumes "0 < k" "k \<le> 2 ^ 53"
  shows "roundDouble (of_int k) = of_int k"
proof -
  let ?a = "of_int k :: rat"
  from assms(1) have a: "0 < ?a" by simp
  show ?thesis
  proof (cases "k < 2 ^ 53")
    case True
    then have "?a < of_int (2 ^ 53)" by (simp only: of_int_less_iff)
    then have "?a < power_int 2 53" by simp
    with a have "binade ?a < 53" by (rule binade_le)
    then have e: "binade ?a \<le> 52" by simp
    from roundDouble_grid [OF a e, of k] show ?thesis
      by simp
  next
    case False
    with assms(2) have k: "k = 2 ^ 53" by simp
    then have a53: "?a = power_int 2 53" by simp
    have "binade ?a = 53"
    proof (rule antisym)
      have "?a < power_int 2 54" unfolding a53 by simp
      with a have "binade ?a < 54" by (rule binade_le)
      then show "binade ?a \<le> 53" by simp
      from a show "53 \<le> binade ?a" by (rule binade_ge) (simp add: a53)
    qed
    then have u: "ulp ?a = 2" using a by (simp add: ulp_def)
    have "?a / 2 = of_int (2 ^ 52)"
      unfolding k by simp
    with u have "?a / ulp ?a = of_int (2 ^ 52)"
      by simp
    then have "roundEven (?a / ulp ?a) = 2 ^ 52"
      by (simp only: roundEven_of_int)
    then have "roundDouble ?a = of_int (2 ^ 52) * 2"
      by (simp only: roundDouble_pos [OF a] u)
    also have "\<dots> = ?a"
      unfolding k by simp
    finally show ?thesis .
  qed
qed

lemma roundDouble_exact:
  assumes "\<bar>k\<bar> \<le> 2 ^ 53"
  shows "roundDouble (of_int k) = of_int k"
proof (cases "k = 0")
  case True
  then show ?thesis by simp
next
  case False
  show ?thesis
  proof (cases "0 < k")
    case True
    with assms show ?thesis by (intro roundDouble_exact_pos) simp_all
  next
    case neg: False
    with False assms have "0 < - k" "- k \<le> 2 ^ 53" by simp_all
    then have "roundDouble (of_int (- k)) = of_int (- k)"
      by (rule roundDouble_exact_pos)
    then show ?thesis
      by (simp add: roundDouble_minus)
  qed
qed

lemma roundDouble_ge_1:
  assumes "1 \<le> a"
  shows "1 \<le> roundDouble a"
proof -
  from assms have a: "0 < a" by simp
  let ?e = "binade a"
  have "power_int (2::rat) 0 \<le> a" using assms by simp
  with a have e0: "0 \<le> ?e" by (rule binade_ge)
  have "of_int (2 ^ 52) * ulp a = power_int 2 ?e"
  proof -
    have "power_int (2::rat) (52 + (?e - 52)) = power_int 2 52 * power_int 2 (?e - 52)"
      by (rule power_int_add) simp
    then show ?thesis using a by (simp add: ulp_def)
  qed
  moreover from binade_bounds [OF a] have "power_int 2 ?e \<le> a" by simp
  ultimately have "power_int 2 ?e \<le> roundDouble a"
    using roundDouble_ge [OF a, of "2 ^ 52"] by simp
  moreover from e0 have "(1::rat) \<le> power_int 2 ?e"
    by (intro one_le_power_int) simp_all
  ultimately show ?thesis by simp
qed

lemma roundDouble_le_5:
  assumes "0 < a" "a \<le> 5"
  shows "roundDouble a \<le> 5"
proof -
  from assms(2) have "a < power_int 2 3" by simp
  with assms(1) have "binade a < 3" by (rule binade_le)
  then have e: "binade a \<le> 52" by simp
  from roundDouble_grid(1) [OF assms(1) e, of 5] assms(2) show ?thesis
    by simp
qed

lemma roundDouble_numeral:
  "(numeral n :: int) \<le> 2 ^ 53 \<Longrightarrow> roundDouble (numeral n) = numeral n"
  using roundDouble_exact [of "numeral n"] by simp

lemma roundDouble_1 [simp]: "roundDouble 1 = 1"
  using roundDouble_exact [of 1] by simp

lemma toJsInt_small:
  assumes "\<bar>n\<bar> \<le> 2 ^ 53"
  shows "toJsInt n = Finite n"
proof -
  have r: "roundDouble (of_int n) = of_int n"
    using assms by (rule roundDouble_exact)
  have "\<bar>n\<bar> < 2 ^ 1024"
    using assms by (rule le_less_trans) simp
  then have "\<bar>of_int n :: rat\<bar> < of_int (2 ^ 1024)"
    unfolding of_int_abs [symmetric] of_int_less_iff .
  then have "\<not> power_int 2 1024 \<le> \<bar>of_int n :: rat\<bar>"
    by simp
  with r show ?thesis
    by (simp add: toJsInt_def)
qed

section \<open>Properties of the recomputation\<close>

lemma foldl_rating_sum: "foldl (\<lambda>sum r. sum + rating r) a rs = a + sum_list (map rating rs)"
  by (induction rs arbitrary: a) auto

lemma averageOf_mean: "rs \<noteq> [] \<Longrightarrow> averageOf rs = spec_mean rs"
  by (simp add: averageOf_def spec_mean_def foldl_rating_sum)

lemma averageOf_Nil: "averageOf [] = 0"
  by (simp add: averageOf_def)




lemma reviews_updateItemRating: "reviews (updateItemRating st i now) = reviews st"
  by (simp add: updateItemRating_def Let_def)

lemma reviewsOfItem_updateItemRating:
  "reviewsOfItem (updateItemRating st i now) j = reviewsOfItem st j"
  by (simp add: reviewsOfItem_def reviews_updateItemRating)

lemma take1_filter_map_item:
  assumes "\<And>it. item_id (f it) = item_id it"
  shows "take (Suc 0) (filter (\<lambda>it. item_id it = i)
           (map (\<lambda>it. if item_id it = i then f it else it) xs))
         = map f (take (Suc 0) (filter (\<lambda>it. item_id it = i) xs))"
  using assms by (induction xs) auto

lemma selectItem_updateItemRating:
  "selectItem (updateItemRating st i now) i =
     map (\<lambda>it. it\<lparr>averageRating := averageOf (reviewsOfItem st i),
                    totalReviews := int (length (reviewsOfItem st i)),
                    item_updatedAt := now\<rparr>) (selectItem st i)"
  by (simp add: selectItem_def updateItemRating_def Let_def take1_filter_map_item)

lemma selectItem_Nil_iff: "selectItem st i = [] \<longleftrightarrow> (\<forall>it \<in> set (items st). item_id it \<noteq> i)"
  by (auto simp: selectItem_def filter_empty_conv take_Suc split: list.splits)

lemma updateItemRating_no_item:
  assumes "selectItem st i = []"
  shows "updateItemRating st i now = st"
proof -
  have "map (\<lambda>it. if item_id it = i then f it else it) (items st) = items st" for f
    using assms by (simp add: selectItem_Nil_iff map_idI)
  then show ?thesis
    by (simp add: updateItemRating_def Let_def)
qed

lemma filter_distinct_id:
  "distinct (map review_id rs) \<Longrightarrow> r \<in> set rs \<Longrightarrow>
     filter (\<lambda>x. review_id x = review_id r) rs = [r]"
proof (induction rs)
  case Nil
  then show ?case by simp
next
  case (Cons a rs)
  show ?case
  proof (cases "a = r")
    case True
    from Cons.prems(1) True have "review_id r \<notin> review_id ` set rs" by simp
    then have "\<forall>x \<in> set rs. review_id x \<noteq> review_id r" by (metis imageI)
    then have "filter (\<lambda>x. review_id x = review_id r) rs = []" by (simp add: filter_empty_conv)
    with True show ?thesis by simp
  next
    case False
    with Cons.prems have "r \<in> set rs" by simp
    with Cons.prems have "review_id a \<noteq> review_id r" by auto
    with Cons \<open>r \<in> set rs\<close> show ?thesis by simp
  qed
qed

lemma selectReview_distinct:
  "distinct (map review_id (reviews st)) \<Longrightarrow> r \<in> set (reviews st) \<Longrightarrow>
     selectReview st (review_id r) = [r]"
  by (simp add: selectReview_def filter_distinct_id)

lemma reviewsOfItem_mem:
  "r \<in> set (reviewsOfItem st i) \<longleftrightarrow> r \<in> set (reviews st) \<and> itemId r = i"
  by (auto simp: reviewsOfItem_def)

lemma selectItem_deleteReview: "selectItem (snd (deleteReview st k)) i = selectItem st i"
  by (simp add: selectItem_def deleteReview_def)

lemma reviewsOfItem_deleteReview:
  "reviewsOfItem (snd (deleteReview st k)) i =
     filter (\<lambda>r. review_id r \<noteq> k) (reviewsOfItem st i)"
  by (simp add: reviewsOfItem_def deleteReview_def conj_commute)

lemmas example_defs =
  exampleItem_def exampleReview_def exampleStore_def freshStore_def orphanStore_def
  exampleBody_def fiveStars_def fiveStarsOther_def thirdsStore_def datedStore_def

lemmas store_defs =
  selectItem_def selectReview_def reviewsOfItem_def deleteReview_def updateReview_def
  insertReview_def nextReviewId_def updateItemRating_def averageOf_def first_def
  roundDouble_numeral

lemmas js_defs =
  parseInt_def parseIntStr_def numToString_def finToString_def decDigits.simps
  digitChar_def isWhiteSpace_def digitVal_def digitTable_def trim_def queryInt_def
  fieldInt_def blankString_def emptyString_def commentValue_def ratingUpdate_def
  titleUpdate_def commentUpdate_def toJsInt_small roundDouble_numeral



text \<open>
  C3. Where an item has exactly one review, the \<open>DELETE\<close> of that review answers 200 and
  leaves the item with \<open>averageRating\<close> 0 and \<open>totalReviews\<close> 0. The item id is read from
  the row found before the deletion, and the recomputation runs on the store the deletion
  left.
\<close>

theorem DELETE_last_review:
  assumes ids: "reviewKeys st"
    and item: "selectItem st i = [it]"
    and one: "reviewsOfItem st i = [r]"
    and q: "queryInt qid = Finite (review_id r)"
  shows "fst (DELETE st qid t3) =
           Response 200 (DeletedJson ''Review deleted successfully'' (review_id r)) \<and>
         snd (DELETE st qid t3) =
           updateItemRating (snd (deleteReview st (review_id r))) (itemId r) t3 \<and>
         reviewsOfItem (snd (DELETE st qid t3)) i = [] \<and>
         selectItem (snd (DELETE st qid t3)) i =
           [it\<lparr>averageRating := 0, totalReviews := 0, item_updatedAt := t3\<rparr>]"
proof -
  from ids have ids': "distinct (map review_id (reviews st))"
    by (simp add: reviewKeys_def)
  from one have mem: "r \<in> set (reviews st)" and ri: "itemId r = i"
    using reviewsOfItem_mem [of r st i] by simp_all
  from ids' mem have sel: "selectReview st (review_id r) = [r]"
    by (rule selectReview_distinct)
  from ids' mem have del: "fst (deleteReview st (review_id r)) = [r]"
    by (simp add: deleteReview_def filter_distinct_id)
  let ?st1 = "snd (deleteReview st (review_id r))"
  have res: "DELETE st qid t3 =
      (Response 200 (DeletedJson ''Review deleted successfully'' (review_id r)),
       updateItemRating ?st1 (itemId r) t3)"
    using q sel del by (simp add: DELETE_def Let_def split_beta)
  have empty: "reviewsOfItem ?st1 i = []"
    by (simp add: reviewsOfItem_deleteReview one)
  show ?thesis
    using res ri empty item
    by (simp add: reviewsOfItem_updateItemRating selectItem_updateItemRating
        selectItem_deleteReview averageOf_Nil)
qed

theorem DELETE_last_review_witness:
  "reviewKeys exampleStore \<and>
   selectItem exampleStore 2 = [exampleItem 2] \<and>
   reviewsOfItem exampleStore 2 = [exampleReview 3 2 5] \<and>
   queryInt (Some ''3'') = Finite (review_id (exampleReview 3 2 5)) \<and>
   fst (DELETE exampleStore (Some ''3'') ''now'') =
     Response 200 (DeletedJson ''Review deleted successfully'' 3) \<and>
   selectItem (snd (DELETE exampleStore (Some ''3'') ''now'')) 2 =
     [(exampleItem 2)\<lparr>averageRating := 0, totalReviews := 0, item_updatedAt := ''now''\<rparr>]"
proof -
  have h1: "reviewKeys exampleStore"
    by (simp add: reviewKeys_def example_defs)
  have h2: "selectItem exampleStore 2 = [exampleItem 2]"
    by (simp add: example_defs selectItem_def)
  have h3: "reviewsOfItem exampleStore 2 = [exampleReview 3 2 5]"
    by (simp add: example_defs reviewsOfItem_def)
  have h4: "queryInt (Some ''3'') = Finite (review_id (exampleReview 3 2 5))"
    by (simp add: js_defs exampleReview_def Let_def)
  have k: "review_id (exampleReview 3 2 5) = 3"
    by (simp add: exampleReview_def)
  have r: "fst (DELETE exampleStore (Some ''3'') ''now'') =
       Response 200 (DeletedJson ''Review deleted successfully'' (review_id (exampleReview 3 2 5))) \<and>
     selectItem (snd (DELETE exampleStore (Some ''3'') ''now'')) 2 =
       [(exampleItem 2)\<lparr>averageRating := 0, totalReviews := 0, item_updatedAt := ''now''\<rparr>]"
    using DELETE_last_review [OF h1 h2 h3 h4, of "''now''"] by blast
  show ?thesis
    using h1 h2 h3 h4 r k by simp
qed

text \<open>
  C7. Where no item has the id, \<open>updateItemRating\<close> returns with the store as it was: no
  row is updated and nothing is raised. The caller does not see the missing item either:
  the \<open>DELETE\<close> of a review of such an item answers 200.
\<close>

theorem updateItemRating_missing_item:
  assumes "selectItem st i = []"
  shows "updateItemRating st i now = st \<and>
         (queryInt qid = Finite k \<and> selectReview st k = r # rest \<and> itemId r = i \<longrightarrow>
            fst (DELETE st qid t3) =
              Response 200 (DeletedJson ''Review deleted successfully'' k) \<and>
            items (snd (DELETE st qid t3)) = items st)"
proof -
  have engine: "updateItemRating st i now = st"
    using assms by (rule updateItemRating_no_item)
  have caller: "queryInt qid = Finite k \<and> selectReview st k = r # rest \<and> itemId r = i \<longrightarrow>
      fst (DELETE st qid t3) = Response 200 (DeletedJson ''Review deleted successfully'' k) \<and>
      items (snd (DELETE st qid t3)) = items st"
  proof (rule impI)
    assume a: "queryInt qid = Finite k \<and> selectReview st k = r # rest \<and> itemId r = i"
    then obtain fs where fs: "filter (\<lambda>x. review_id x = k) (reviews st) = r # fs"
      by (cases "filter (\<lambda>x. review_id x = k) (reviews st)") (auto simp: selectReview_def)
    then have "r \<in> set (filter (\<lambda>x. review_id x = k) (reviews st))"
      by simp
    then have rk: "review_id r = k"
      by simp
    let ?st1 = "snd (deleteReview st k)"
    from assms have "selectItem ?st1 i = []"
      by (simp add: selectItem_deleteReview)
    then have noop: "updateItemRating ?st1 i t3 = ?st1"
      by (rule updateItemRating_no_item)
    have res: "DELETE st qid t3 =
        (Response 200 (DeletedJson ''Review deleted successfully'' k),
         updateItemRating ?st1 i t3)"
      using a fs rk by (simp add: DELETE_def Let_def split_beta deleteReview_def)
    show "fst (DELETE st qid t3) =
            Response 200 (DeletedJson ''Review deleted successfully'' k) \<and>
          items (snd (DELETE st qid t3)) = items st"
      using res noop by (simp add: deleteReview_def)
  qed
  from engine caller show ?thesis
    by (rule conjI)
qed

theorem updateItemRating_missing_item_witness:
  "selectItem orphanStore 9 = [] \<and>
   updateItemRating orphanStore 9 ''now'' = orphanStore \<and>
   fst (DELETE orphanStore (Some ''7'') ''later'') =
     Response 200 (DeletedJson ''Review deleted successfully'' 7)"
proof -
  have h: "selectItem orphanStore 9 = []"
    by (simp add: example_defs selectItem_def)
  have q: "queryInt (Some ''7'') = Finite 7"
    by (simp add: js_defs Let_def)
  have s: "selectReview orphanStore 7 = exampleReview 7 9 3 # []"
    by (simp add: example_defs selectReview_def)
  have i: "itemId (exampleReview 7 9 3) = 9"
    by (simp add: exampleReview_def)
  from updateItemRating_missing_item
    [OF h, of "''now''" "Some ''7''" 7 "exampleReview 7 9 3" "[]" "''later''"] h q s i
  show ?thesis
    by simp
qed

section \<open>Validation, missing items and partial updates\<close>

text \<open>
  C4. A rating that is a number but no integer passes the check of \<open>POST\<close> and of
  \<open>PUT\<close>: \<^verbatim>\<open>parseInt(4.7)\<close> is 4, so the request with rating 4.7 is answered 201
  (200 for \<open>PUT\<close>) and a row with rating 4 is written.
\<close>

theorem fractional_rating_accepted:
  "POST freshStore (Some (exampleBody (JNum (NumFin False 1 1)) (JNum (NumFin False 47 1))))
     ''t1'' ''t2'' ''t3'' =
   (Response 201
      (RowJson (Some ((exampleReview 1 1 4)
         \<lparr>review_createdAt := ''t1'', review_updatedAt := ''t2''\<rparr>))),
    \<lparr>items = [(exampleItem 1)\<lparr>averageRating := 4, totalReviews := 1, item_updatedAt := ''t3''\<rparr>,
              exampleItem 2],
     reviews = [(exampleReview 1 1 4)\<lparr>review_createdAt := ''t1'', review_updatedAt := ''t2''\<rparr>],
     reviewSeq = 1\<rparr>) \<and>
   PUT exampleStore (Some ''3'')
     (Some ((exampleBody JUndefined (JNum (NumFin False 47 1)))\<lparr>req_title := JUndefined\<rparr>))
     ''t1'' ''t3'' =
   (Response 200
      (RowJson (Some ((exampleReview 3 2 4)\<lparr>review_updatedAt := ''t1''\<rparr>))),
    \<lparr>items = [exampleItem 1,
              (exampleItem 2)\<lparr>averageRating := 4, totalReviews := 1, item_updatedAt := ''t3''\<rparr>],
     reviews = [exampleReview 1 1 4, exampleReview 2 1 2,
                (exampleReview 3 2 4)\<lparr>review_updatedAt := ''t1''\<rparr>],
     reviewSeq = 3\<rparr>)"
  by (simp add: POST_def PUT_def example_defs js_defs store_defs setReview_def Let_def)

text \<open>
  C5. A \<open>POST\<close> whose item id matches no item writes nothing: no review is inserted, no
  aggregate is recomputed, and the store is as it was. The answer is that of the first
  check that fails, in the order of the code: 400 \<^verbatim>\<open>INVALID_ITEM_ID\<close> where the item id
  is missing or no number, 400 \<^verbatim>\<open>INVALID_USER_ID\<close>, 400 \<^verbatim>\<open>INVALID_RATING\<close>,
  400 \<^verbatim>\<open>MISSING_TITLE\<close>. Where all four pass, the lookup of the item decides: the answer
  is 404, and it is 500 where the item id is an infinite number, which no query takes.
\<close>

theorem POST_missing_item:
  assumes "case fieldInt (req_itemId b) of Finite i \<Rightarrow> selectItem st i = [] | _ \<Rightarrow> True"
  shows "POST st (Some b) t1 t2 t3 =
           (if fieldInt (req_itemId b) = NaN
            then Response 400 (ErrorJson ''Valid itemId is required'' (Some ''INVALID_ITEM_ID''))
            else if blankString (req_userId b)
            then Response 400 (ErrorJson ''Valid userId is required'' (Some ''INVALID_USER_ID''))
            else if (case fieldInt (req_rating b) of Finite r \<Rightarrow> r < 1 \<or> 5 < r | _ \<Rightarrow> True)
            then Response 400 (ErrorJson ''Rating must be an integer between 1 and 5''
                   (Some ''INVALID_RATING''))
            else if blankString (req_title b)
            then Response 400 (ErrorJson ''Title is required'' (Some ''MISSING_TITLE''))
            else (case fieldInt (req_itemId b) of
                    Finite i \<Rightarrow> Response 404 (ErrorJson ''Item not found'' None)
                  | _ \<Rightarrow> Response 500 (ServerError RangeError)),
            st)"
  using assms by (auto simp: POST_def bindError_def split: jsint.splits)

theorem POST_missing_item_witness:
  "(case fieldInt (req_itemId (exampleBody (JNum (NumFin False 999999 6)) (JNum (NumFin False 4 1))))
      of Finite i \<Rightarrow> selectItem freshStore i = [] | _ \<Rightarrow> True) \<and>
   POST freshStore (Some (exampleBody (JNum (NumFin False 999999 6)) (JNum (NumFin False 4 1))))
     ''t1'' ''t2'' ''t3'' =
   (Response 404 (ErrorJson ''Item not found'' None), freshStore) \<and>
   (case fieldInt (req_itemId ((exampleBody (JStr ''999999'') (JStr ''4''))\<lparr>req_title := JStr '' ''\<rparr>))
      of Finite i \<Rightarrow> selectItem freshStore i = [] | _ \<Rightarrow> True) \<and>
   POST freshStore (Some ((exampleBody (JStr ''999999'') (JStr ''4''))\<lparr>req_title := JStr '' ''\<rparr>))
     ''t1'' ''t2'' ''t3'' =
   (Response 400 (ErrorJson ''Title is required'' (Some ''MISSING_TITLE'')), freshStore)"
proof -
  let ?b = "exampleBody (JNum (NumFin False 999999 6)) (JNum (NumFin False 4 1))"
  let ?c = "(exampleBody (JStr ''999999'') (JStr ''4''))\<lparr>req_title := JStr '' ''\<rparr>"
  have i: "fieldInt (req_itemId ?b) = Finite 999999"
    by (simp add: exampleBody_def js_defs Let_def)
  have h: "case fieldInt (req_itemId ?b) of Finite i \<Rightarrow> selectItem freshStore i = [] | _ \<Rightarrow> True"
    by (simp add: i) (simp add: example_defs selectItem_def)
  have u: "\<not> blankString (req_userId ?b)" and t: "\<not> blankString (req_title ?b)"
    by (simp_all add: exampleBody_def js_defs)
  have r: "fieldInt (req_rating ?b) = Finite 4"
    by (simp add: exampleBody_def js_defs Let_def)
  from POST_missing_item [OF h, of "''t1''" "''t2''" "''t3''"] i u t r
  have b: "POST freshStore (Some ?b) ''t1'' ''t2'' ''t3'' =
      (Response 404 (ErrorJson ''Item not found'' None), freshStore)"
    by simp
  have i': "fieldInt (req_itemId ?c) = Finite 999999"
    by (simp add: exampleBody_def js_defs Let_def)
  have h': "case fieldInt (req_itemId ?c) of Finite i \<Rightarrow> selectItem freshStore i = [] | _ \<Rightarrow> True"
    unfolding i' by (simp add: example_defs selectItem_def)
  have u': "\<not> blankString (req_userId ?c)" and t': "blankString (req_title ?c)"
    by (simp_all add: exampleBody_def js_defs)
  have r': "fieldInt (req_rating ?c) = Finite 4"
    by (simp add: exampleBody_def js_defs Let_def)
  from POST_missing_item [OF h', of "''t1''" "''t2''" "''t3''"] i' u' t' r'
  have c: "POST freshStore (Some ?c) ''t1'' ''t2'' ''t3'' =
      (Response 400 (ErrorJson ''Title is required'' (Some ''MISSING_TITLE'')), freshStore)"
    by simp
  from h b h' c show ?thesis
    by blast
qed

text \<open>
  The claim as written fails where another check fails first: item 999999 does not
  exist, the rating is 6, and the answer is 400 \<^verbatim>\<open>INVALID_RATING\<close>, not 404.
\<close>

theorem POST_missing_item_invalid_rating:
  "selectItem freshStore 999999 = [] \<and>
   fst (POST freshStore
          (Some (exampleBody (JNum (NumFin False 999999 6)) (JNum (NumFin False 6 1))))
          ''t1'' ''t2'' ''t3'') =
     Response 400
       (ErrorJson ''Rating must be an integer between 1 and 5'' (Some ''INVALID_RATING''))"
  by (simp add: POST_def example_defs js_defs store_defs Let_def)

text \<open>
  C6. A \<open>PUT\<close> on an existing review whose body has a comment and neither rating nor
  title changes the comment and \<^verbatim>\<open>updatedAt\<close> of the rows with that id and nothing
  else: rating, title and every other column stay, the other rows stay, and the table of
  items, with every aggregate, stays, since no recomputation runs. (Where the comment is
  no string and not false in a condition, the handler answers 500 and the store stays.)
\<close>

theorem PUT_comment_only:
  assumes "queryInt qid = Finite k" and "selectReview st k = e # rest"
    and "req_rating b = JUndefined" and "req_title b = JUndefined"
    and "req_comment b \<noteq> JUndefined"
  shows "case commentValue (req_comment b) of
           Inl x \<Rightarrow> PUT st qid (Some b) now t3 = (Response 500 (ServerError x), st)
         | Inr c \<Rightarrow> PUT st qid (Some b) now t3 =
             (Response 200 (RowJson (Some (e\<lparr>comment := c, review_updatedAt := now\<rparr>))),
              st\<lparr>reviews :=
                   map (\<lambda>r. if review_id r = k
                             then r\<lparr>comment := c, review_updatedAt := now\<rparr> else r)
                       (reviews st)\<rparr>)"
proof -
  from assms(2) obtain fs where fs: "filter (\<lambda>x. review_id x = k) (reviews st) = e # fs"
    by (cases "filter (\<lambda>x. review_id x = k) (reviews st)") (auto simp: selectReview_def)
  then have "e \<in> set (filter (\<lambda>x. review_id x = k) (reviews st))"
    by simp
  then have ek: "review_id e = k"
    by simp
  have filt: "filter (\<lambda>x. review_id x = k) (map (\<lambda>r. if review_id r = k then f r else r) rs)
      = map f (filter (\<lambda>x. review_id x = k) rs)"
    if "\<And>r. review_id (f r) = review_id r" for f rs
    using that by (induction rs) auto
  show ?thesis
    using assms fs ek
    by (auto simp: PUT_def Let_def updateReview_def setReview_def first_def filt
        ratingUpdate_def titleUpdate_def commentUpdate_def split: sum.splits)
qed

theorem PUT_comment_only_witness:
  "queryInt (Some ''2'') = Finite 2 \<and>
   selectReview exampleStore 2 = [exampleReview 2 1 2] \<and>
   PUT exampleStore (Some ''2'')
     (Some \<lparr>req_itemId = JUndefined, req_userId = JUndefined, req_rating = JUndefined,
            req_title = JUndefined, req_comment = JStr '' fine ''\<rparr>) ''t1'' ''t3'' =
   (Response 200
      (RowJson (Some ((exampleReview 2 1 2)\<lparr>comment := Some ''fine'', review_updatedAt := ''t1''\<rparr>))),
    exampleStore\<lparr>reviews :=
      [exampleReview 1 1 4,
       (exampleReview 2 1 2)\<lparr>comment := Some ''fine'', review_updatedAt := ''t1''\<rparr>,
       exampleReview 3 2 5]\<rparr>)"
proof -
  let ?b = "\<lparr>req_itemId = JUndefined, req_userId = JUndefined, req_rating = JUndefined,
            req_title = JUndefined, req_comment = JStr '' fine ''\<rparr>"
  have q: "queryInt (Some ''2'') = Finite 2"
    by (simp add: js_defs Let_def)
  have s: "selectReview exampleStore 2 = exampleReview 2 1 2 # []"
    by (simp add: example_defs selectReview_def)
  have c: "commentValue (req_comment ?b) = Inr (Some ''fine'')"
    by (simp add: js_defs)
  have m: "map (\<lambda>r. if review_id r = 2
                     then r\<lparr>comment := Some ''fine'', review_updatedAt := ''t1''\<rparr> else r)
               (reviews exampleStore) =
           [exampleReview 1 1 4,
            (exampleReview 2 1 2)\<lparr>comment := Some ''fine'', review_updatedAt := ''t1''\<rparr>,
            exampleReview 3 2 5]"
    by (simp add: example_defs)
  from PUT_comment_only [OF q s, of ?b "''t1''" "''t3''"] c m
  have "PUT exampleStore (Some ''2'') (Some ?b) ''t1'' ''t3'' =
     (Response 200
        (RowJson (Some ((exampleReview 2 1 2)\<lparr>comment := Some ''fine'', review_updatedAt := ''t1''\<rparr>))),
      exampleStore\<lparr>reviews :=
        [exampleReview 1 1 4,
         (exampleReview 2 1 2)\<lparr>comment := Some ''fine'', review_updatedAt := ''t1''\<rparr>,
         exampleReview 3 2 5]\<rparr>)"
    by simp
  with q s show ?thesis
    by simp
qed

section \<open>Invariants of the handlers\<close>

lemma status_bindError [simp]: "status bindError = 500"
  by (simp add: bindError_def)

lemma selectReview_Cons:
  assumes "selectReview st k = e # rest"
  shows "e \<in> set (reviews st) \<and> review_id e = k"
proof -
  from assms obtain fs where "filter (\<lambda>x. review_id x = k) (reviews st) = e # fs"
    by (cases "filter (\<lambda>x. review_id x = k) (reviews st)") (auto simp: selectReview_def)
  then have "e \<in> set (filter (\<lambda>x. review_id x = k) (reviews st))"
    by simp
  then show ?thesis
    by simp
qed

lemma reviewKeys_unique:
  assumes "reviewKeys st" "r \<in> set (reviews st)" "e \<in> set (reviews st)"
    and "review_id r = review_id e"
  shows "r = e"
proof -
  from assms(1) have "inj_on review_id (set (reviews st))"
    by (simp add: reviewKeys_def distinct_map)
  with assms(2-4) show ?thesis
    by (auto dest: inj_onD)
qed

subsection \<open>What a handler does to the store\<close>

lemma POST_store_cases:
  "snd (POST st b t1 t2 t3) = st \<or>
   (\<exists>i u r t c. 1 \<le> r \<and> r \<le> 5 \<and>
      snd (POST st b t1 t2 t3) = updateItemRating (snd (insertReview st i u r t c t1 t2)) i t3)"
proof (cases "snd (POST st b t1 t2 t3) = st")
  case True
  then show ?thesis ..
next
  case False
  then obtain bd i r c where b: "b = Some bd"
    and i: "fieldInt (req_itemId bd) = Finite i"
    and r: "fieldInt (req_rating bd) = Finite r" "1 \<le> r" "r \<le> 5"
    and ok: "\<not> blankString (req_userId bd)" "\<not> blankString (req_title bd)" "selectItem st i \<noteq> []"
    and c: "commentValue (req_comment bd) = Inr c"
    by (auto simp: POST_def split: option.splits jsint.splits sum.splits if_splits)
  then have "snd (POST st b t1 t2 t3) =
      updateItemRating (snd (insertReview st i (trim (strOf (req_userId bd))) r
        (trim (strOf (req_title bd))) c t1 t2)) i t3"
    by (simp add: POST_def Let_def split_beta)
  with r show ?thesis
    by blast
qed

lemma PUT_store_cases:
  "snd (PUT st qid b now t3) = st \<or>
   (\<exists>k e rest u. selectReview st k = e # rest \<and>
      (case u_rating u of None \<Rightarrow> True | Some r \<Rightarrow> 1 \<le> r \<and> r \<le> 5) \<and>
      snd (PUT st qid b now t3) =
        (case u_rating u of
           None \<Rightarrow> snd (updateReview st k u)
         | Some r \<Rightarrow> updateItemRating (snd (updateReview st k u)) (itemId e) t3))"
proof (cases "snd (PUT st qid b now t3) = st")
  case True
  then show ?thesis ..
next
  case False
  then obtain k bd e rest ur ut uc where k: "queryInt qid = Finite k" and b: "b = Some bd"
    and e: "selectReview st k = e # rest"
    and ur: "ratingUpdate (req_rating bd) = Inr ur"
    and ut: "titleUpdate (req_title bd) = Inr ut"
    and uc: "commentUpdate (req_comment bd) = Inr uc"
    by (auto simp: PUT_def split: option.splits jsint.splits sum.splits list.splits)
  let ?u = "\<lparr>u_rating = ur, u_title = ut, u_comment = uc, u_updatedAt = now\<rparr>"
  from ur have ok: "case ur of None \<Rightarrow> True | Some r \<Rightarrow> 1 \<le> r \<and> r \<le> 5"
    by (auto simp: ratingUpdate_def split: option.splits jsint.splits if_splits)
  have und: "req_rating bd \<noteq> JUndefined \<longleftrightarrow> ur \<noteq> None"
  proof (cases "req_rating bd = JUndefined")
    case True
    with ur show ?thesis
      by (simp add: ratingUpdate_def)
  next
    case False
    with ur obtain r where "parseInt (req_rating bd) = Finite r"
      by (cases "parseInt (req_rating bd)") (simp_all add: ratingUpdate_def)
    with ur False have "ur = Some r"
      by (simp add: ratingUpdate_def split: if_splits)
    with False show ?thesis
      by simp
  qed
  from k b e ur ut uc have "snd (PUT st qid b now t3) =
      (if req_rating bd \<noteq> JUndefined
       then updateItemRating (snd (updateReview st k ?u)) (itemId e) t3
       else snd (updateReview st k ?u))"
    by (simp add: PUT_def Let_def split_beta)
  with und have "snd (PUT st qid b now t3) =
      (case u_rating ?u of
         None \<Rightarrow> snd (updateReview st k ?u)
       | Some r \<Rightarrow> updateItemRating (snd (updateReview st k ?u)) (itemId e) t3)"
    by (auto split: option.splits jsint.splits)
  moreover from ok have "case u_rating ?u of None \<Rightarrow> True | Some r \<Rightarrow> 1 \<le> r \<and> r \<le> 5"
    by simp
  ultimately show ?thesis
    using e by blast
qed

lemma DELETE_store_cases:
  "snd (DELETE st qid t3) = st \<or>
   (\<exists>k e rest. selectReview st k = e # rest \<and>
      snd (DELETE st qid t3) = updateItemRating (snd (deleteReview st k)) (itemId e) t3)"
proof (cases "snd (DELETE st qid t3) = st")
  case True
  then show ?thesis ..
next
  case False
  then obtain k e rest where k: "queryInt qid = Finite k" and e: "selectReview st k = e # rest"
    by (auto simp: DELETE_def split: option.splits jsint.splits list.splits)
  then have "snd (DELETE st qid t3) = updateItemRating (snd (deleteReview st k)) (itemId e) t3"
    by (simp add: DELETE_def Let_def split_beta split: list.splits)
  with e show ?thesis
    by blast
qed

subsection \<open>The primary key is kept\<close>

lemma le_foldr_max: "(x::int) \<in> set xs \<Longrightarrow> x \<le> foldr max xs 0"
  by (induction xs) auto

lemma nextReviewId_fresh: "r \<in> set (reviews st) \<Longrightarrow> review_id r < nextReviewId st"
proof -
  assume "r \<in> set (reviews st)"
  then have "review_id r \<in> set (map review_id (reviews st))"
    by simp
  then have "review_id r \<le> foldr max (map review_id (reviews st)) 0"
    by (rule le_foldr_max)
  then show ?thesis
    by (simp add: nextReviewId_def)
qed

lemma reviewKeys_insertReview:
  "reviewKeys st \<Longrightarrow> reviewKeys (snd (insertReview st i u r t c a b))"
  by (auto simp: reviewKeys_def insertReview_def Let_def dest: nextReviewId_fresh)

lemma review_id_setReview: "review_id (setReview u r) = review_id r"
  by (simp add: setReview_def)

lemma itemId_setReview: "itemId (setReview u r) = itemId r"
  by (simp add: setReview_def)

lemma map_review_id_setReview:
  "map review_id (map (\<lambda>r. if review_id r = k then setReview u r else r) rs) = map review_id rs"
  by (induction rs) (simp_all add: review_id_setReview)

lemma reviews_updateReview:
  "reviews (snd (updateReview st k u)) =
     map (\<lambda>r. if review_id r = k then setReview u r else r) (reviews st)"
  by (simp add: updateReview_def Let_def)

lemma reviewKeys_updateReview: "reviewKeys st \<Longrightarrow> reviewKeys (snd (updateReview st k u))"
  by (simp only: reviewKeys_def reviews_updateReview map_review_id_setReview)

lemma reviewKeys_deleteReview: "reviewKeys st \<Longrightarrow> reviewKeys (snd (deleteReview st k))"
  by (simp add: reviewKeys_def deleteReview_def distinct_map_filter)

lemma reviewKeys_updateItemRating: "reviewKeys (updateItemRating st i now) = reviewKeys st"
  by (simp add: reviewKeys_def reviews_updateItemRating)

lemma handle_reviewKeys:
  assumes "reviewKeys st"
  shows "reviewKeys (snd (handle st q))"
proof (cases q)
  case (Create b t1 t2 t3)
  with assms POST_store_cases [of st b t1 t2 t3] show ?thesis
    by (auto simp: reviewKeys_updateItemRating reviewKeys_insertReview)
next
  case (Update qid b now t3)
  with assms PUT_store_cases [of st qid b now t3] show ?thesis
    by (auto simp: reviewKeys_updateItemRating reviewKeys_updateReview split: option.splits jsint.splits)
next
  case (Delete qid t3)
  with assms DELETE_store_cases [of st qid t3] show ?thesis
    by (auto simp: reviewKeys_updateItemRating reviewKeys_deleteReview)
qed

subsection \<open>The aggregates stay consistent\<close>

lemma aggregateOk_ratings:
  assumes "map rating (reviewsOfItem st' (item_id it)) = map rating (reviewsOfItem st (item_id it))"
  shows "aggregateOk st' it = aggregateOk st it"
proof -
  let ?a = "reviewsOfItem st' (item_id it)" and ?b = "reviewsOfItem st (item_id it)"
  from assms have len: "length ?a = length ?b"
    by (rule map_eq_imp_length_eq)
  then have nil: "?a = [] \<longleftrightarrow> ?b = []"
    by auto
  from assms len have "spec_mean ?a = spec_mean ?b"
    by (simp add: spec_mean_def)
  with len nil show ?thesis
    by (simp add: aggregateOk_def)
qed

lemma aggregateOk_updateItemRating_store:
  "aggregateOk (updateItemRating st i now) it = aggregateOk st it"
  by (rule aggregateOk_ratings) (simp add: reviewsOfItem_updateItemRating)

lemma items_updateItemRating:
  "items (updateItemRating st i now) =
     map (\<lambda>it. if item_id it = i
               then it\<lparr>averageRating := averageOf (reviewsOfItem st i),
                       totalReviews := int (length (reviewsOfItem st i)),
                       item_updatedAt := now\<rparr>
               else it) (items st)"
  by (simp add: updateItemRating_def Let_def)

lemma consistent_updateItemRating:
  assumes "\<forall>it \<in> set (items st). item_id it \<noteq> i \<longrightarrow> aggregateOk st it"
  shows "consistent (updateItemRating st i now)"
proof -
  have "aggregateOk st (if item_id it = i
               then it\<lparr>averageRating := averageOf (reviewsOfItem st i),
                       totalReviews := int (length (reviewsOfItem st i)),
                       item_updatedAt := now\<rparr>
               else it)" if "it \<in> set (items st)" for it
  proof (cases "item_id it = i")
    case True
    then show ?thesis
      by (simp add: aggregateOk_def averageOf_mean averageOf_Nil)
  next
    case False
    with assms that show ?thesis by simp
  qed
  then show ?thesis
    unfolding consistent_def items_updateItemRating list_all_iff
      aggregateOk_updateItemRating_store set_map
    by blast
qed

lemma consistent_iff: "consistent st \<longleftrightarrow> (\<forall>it \<in> set (items st). aggregateOk st it)"
  by (simp add: consistent_def list_all_iff)

lemma insertReview_other:
  "j \<noteq> i \<Longrightarrow> reviewsOfItem (snd (insertReview st i u r t c a b)) j = reviewsOfItem st j"
  by (simp add: reviewsOfItem_def insertReview_def Let_def)

lemma items_insertReview: "items (snd (insertReview st i u r t c a b)) = items st"
  by (simp add: insertReview_def Let_def)

lemma consistent_insert:
  assumes "consistent st"
  shows "consistent (updateItemRating (snd (insertReview st i u r t c a b)) i now)"
proof (rule consistent_updateItemRating, intro ballI impI)
  fix it
  assume "it \<in> set (items (snd (insertReview st i u r t c a b)))" and ne: "item_id it \<noteq> i"
  with assms have "aggregateOk st it"
    by (simp add: consistent_iff items_insertReview)
  moreover have "aggregateOk (snd (insertReview st i u r t c a b)) it = aggregateOk st it"
    using ne by (intro aggregateOk_ratings) (simp add: insertReview_other)
  ultimately show "aggregateOk (snd (insertReview st i u r t c a b)) it"
    by simp
qed

lemma deleteReview_other:
  assumes "reviewKeys st" "selectReview st k = e # rest" "j \<noteq> itemId e"
  shows "reviewsOfItem (snd (deleteReview st k)) j = reviewsOfItem st j"
proof -
  from assms(2) have e: "e \<in> set (reviews st)" "review_id e = k"
    using selectReview_Cons by blast+
  have "review_id r \<noteq> k" if "r \<in> set (reviewsOfItem st j)" for r
  proof
    assume "review_id r = k"
    with that e assms(1) have "r = e"
      by (auto simp: reviewsOfItem_mem intro: reviewKeys_unique)
    with that assms(3) show False
      by (simp add: reviewsOfItem_mem)
  qed
  then show ?thesis
    by (simp add: reviewsOfItem_deleteReview filter_id_conv)
qed

lemma items_deleteReview: "items (snd (deleteReview st k)) = items st"
  by (simp add: deleteReview_def)

lemma consistent_delete:
  assumes "reviewKeys st" "selectReview st k = e # rest" "consistent st"
  shows "consistent (updateItemRating (snd (deleteReview st k)) (itemId e) now)"
proof (rule consistent_updateItemRating, intro ballI impI)
  fix it
  assume "it \<in> set (items (snd (deleteReview st k)))" and ne: "item_id it \<noteq> itemId e"
  with assms(3) have "aggregateOk st it"
    by (simp add: consistent_iff items_deleteReview)
  moreover have "aggregateOk (snd (deleteReview st k)) it = aggregateOk st it"
    using ne assms(1,2) by (intro aggregateOk_ratings) (simp add: deleteReview_other)
  ultimately show "aggregateOk (snd (deleteReview st k)) it"
    by simp
qed

lemma reviewsOfItem_updateReview:
  "reviewsOfItem (snd (updateReview st k u)) j =
     map (\<lambda>r. if review_id r = k then setReview u r else r) (reviewsOfItem st j)"
proof -
  have "filter (\<lambda>r. itemId r = j) (map (\<lambda>r. if review_id r = k then setReview u r else r) rs)
      = map (\<lambda>r. if review_id r = k then setReview u r else r) (filter (\<lambda>r. itemId r = j) rs)"
    for rs
    by (induction rs) (simp_all add: itemId_setReview)
  then show ?thesis
    by (simp only: reviewsOfItem_def reviews_updateReview)
qed

lemma items_updateReview: "items (snd (updateReview st k u)) = items st"
  by (simp add: updateReview_def Let_def)

lemma updateReview_other:
  assumes "reviewKeys st" "selectReview st k = e # rest" "j \<noteq> itemId e"
  shows "reviewsOfItem (snd (updateReview st k u)) j = reviewsOfItem st j"
proof -
  from assms(2) have e: "e \<in> set (reviews st)" "review_id e = k"
    using selectReview_Cons by blast+
  have "review_id r \<noteq> k" if "r \<in> set (reviewsOfItem st j)" for r
  proof
    assume "review_id r = k"
    with that e assms(1) have "r = e"
      by (auto simp: reviewsOfItem_mem intro: reviewKeys_unique)
    with that assms(3) show False
      by (simp add: reviewsOfItem_mem)
  qed
  then have "map (\<lambda>r. if review_id r = k then setReview u r else r) (reviewsOfItem st j)
      = reviewsOfItem st j"
    by (simp add: map_idI)
  then show ?thesis
    by (simp only: reviewsOfItem_updateReview)
qed

lemma updateReview_ratings:
  assumes "u_rating u = None"
  shows "map rating (reviewsOfItem (snd (updateReview st k u)) j) = map rating (reviewsOfItem st j)"
proof -
  have "map rating (map (\<lambda>r. if review_id r = k then setReview u r else r) rs) = map rating rs"
    for rs
    using assms by (induction rs) (simp_all add: setReview_def)
  then show ?thesis
    by (simp only: reviewsOfItem_updateReview)
qed

lemma consistent_update_rating:
  assumes "reviewKeys st" "selectReview st k = e # rest" "consistent st"
  shows "consistent (updateItemRating (snd (updateReview st k u)) (itemId e) now)"
proof (rule consistent_updateItemRating, intro ballI impI)
  fix it
  assume "it \<in> set (items (snd (updateReview st k u)))" and ne: "item_id it \<noteq> itemId e"
  with assms(3) have "aggregateOk st it"
    by (simp add: consistent_iff items_updateReview)
  moreover have "aggregateOk (snd (updateReview st k u)) it = aggregateOk st it"
    using ne assms(1,2) by (intro aggregateOk_ratings) (simp add: updateReview_other)
  ultimately show "aggregateOk (snd (updateReview st k u)) it"
    by simp
qed

lemma consistent_update_other:
  assumes "u_rating u = None" "consistent st"
  shows "consistent (snd (updateReview st k u))"
proof -
  have "aggregateOk (snd (updateReview st k u)) it = aggregateOk st it" for it
    using assms(1) by (intro aggregateOk_ratings) (rule updateReview_ratings)
  with assms(2) show ?thesis
    by (simp add: consistent_iff items_updateReview)
qed

lemma handle_consistent:
  assumes "reviewKeys st" "consistent st"
  shows "consistent (snd (handle st q))"
proof (cases q)
  case (Create b t1 t2 t3)
  with assms POST_store_cases [of st b t1 t2 t3] show ?thesis
    by (auto simp: consistent_insert)
next
  case (Update qid b now t3)
  with assms PUT_store_cases [of st qid b now t3] show ?thesis
    by (auto simp: consistent_update_rating consistent_update_other split: option.splits jsint.splits)
next
  case (Delete qid t3)
  with assms DELETE_store_cases [of st qid t3] show ?thesis
    by (auto simp: consistent_delete)
qed

lemma run_invariant:
  "reviewKeys st \<Longrightarrow> consistent st \<Longrightarrow> reviewKeys (run st qs) \<and> consistent (run st qs)"
  by (induction qs arbitrary: st) (simp_all add: handle_reviewKeys handle_consistent)

lemma aggregateOk_recomputed:
  assumes "it \<in> set (items (updateItemRating st i now))" "item_id it = i"
  shows "aggregateOk (updateItemRating st i now) it"
proof -
  from assms(1) obtain x where x: "it = (if item_id x = i
               then x\<lparr>averageRating := averageOf (reviewsOfItem st i),
                       totalReviews := int (length (reviewsOfItem st i)),
                       item_updatedAt := now\<rparr>
               else x)"
    unfolding items_updateItemRating set_map by blast
  have "aggregateOk st it"
  proof (cases "item_id x = i")
    case True
    with x show ?thesis
      by (simp add: aggregateOk_def averageOf_mean averageOf_Nil)
  next
    case False
    with x assms(2) show ?thesis by simp
  qed
  then show ?thesis
    by (simp add: aggregateOk_updateItemRating_store)
qed

lemma POST_success:
  assumes "succeeded (fst (POST st b t1 t2 t3))"
  shows "\<exists>bd i u r t c. b = Some bd \<and> fieldInt (req_itemId bd) = Finite i \<and>
      snd (POST st b t1 t2 t3) = updateItemRating (snd (insertReview st i u r t c t1 t2)) i t3"
proof -
  from assms obtain bd i r c where b: "b = Some bd"
    and i: "fieldInt (req_itemId bd) = Finite i"
    and r: "fieldInt (req_rating bd) = Finite r" "\<not> (r < 1 \<or> r > 5)"
    and ok: "\<not> blankString (req_userId bd)" "\<not> blankString (req_title bd)" "selectItem st i \<noteq> []"
    and c: "commentValue (req_comment bd) = Inr c"
    by (auto simp: POST_def succeeded_def split: option.splits jsint.splits sum.splits if_splits)
  then have "snd (POST st b t1 t2 t3) =
      updateItemRating (snd (insertReview st i (trim (strOf (req_userId bd))) r
        (trim (strOf (req_title bd))) c t1 t2)) i t3"
    by (simp add: POST_def Let_def split_beta)
  with b i show ?thesis
    by blast
qed

lemma PUT_success:
  assumes "succeeded (fst (PUT st qid b now t3))" "b = Some bd" "req_rating bd \<noteq> JUndefined"
  shows "\<exists>k e rest u. queryInt qid = Finite k \<and> selectReview st k = e # rest \<and>
      snd (PUT st qid b now t3) = updateItemRating (snd (updateReview st k u)) (itemId e) t3"
proof -
  from assms obtain k e rest ur ut uc where k: "queryInt qid = Finite k"
    and e: "selectReview st k = e # rest"
    and ur: "ratingUpdate (req_rating bd) = Inr ur"
    and ut: "titleUpdate (req_title bd) = Inr ut"
    and uc: "commentUpdate (req_comment bd) = Inr uc"
    by (auto simp: PUT_def succeeded_def ratingUpdate_def titleUpdate_def
        split: option.splits jsint.splits sum.splits list.splits if_splits)
  with assms(2,3) have "snd (PUT st qid b now t3) =
      updateItemRating (snd (updateReview st k
        \<lparr>u_rating = ur, u_title = ut, u_comment = uc, u_updatedAt = now\<rparr>)) (itemId e) t3"
    by (simp add: PUT_def Let_def split_beta)
  with k e show ?thesis
    by blast
qed

lemma DELETE_success:
  assumes "succeeded (fst (DELETE st qid t3))"
  shows "\<exists>k e rest. queryInt qid = Finite k \<and> selectReview st k = e # rest \<and>
      snd (DELETE st qid t3) = updateItemRating (snd (deleteReview st k)) (itemId e) t3"
proof -
  from assms obtain k e rest where k: "queryInt qid = Finite k" and e: "selectReview st k = e # rest"
    by (auto simp: DELETE_def succeeded_def split: option.splits jsint.splits list.splits)
  then have "snd (DELETE st qid t3) = updateItemRating (snd (deleteReview st k)) (itemId e) t3"
    by (simp add: DELETE_def Let_def split_beta split: list.splits)
  with k e show ?thesis
    by blast
qed

lemma handle_recomputed:
  assumes "succeeded (fst (handle st q))" "recomputes q"
    and "it \<in> set (items (snd (handle st q)))" "Some (item_id it) = affectedItem st q"
  shows "aggregateOk (snd (handle st q)) it"
proof (cases q)
  case (Create b t1 t2 t3)
  with assms(1) POST_success [of st b t1 t2 t3] obtain bd i u r t c where
    "b = Some bd" "fieldInt (req_itemId bd) = Finite i"
    "snd (POST st b t1 t2 t3) = updateItemRating (snd (insertReview st i u r t c t1 t2)) i t3"
    by auto
  with assms(3,4) Create show ?thesis
    by (simp add: affectedItem_def aggregateOk_recomputed)
next
  case (Update qid b now t3)
  with assms(2) obtain bd where bd: "b = Some bd" "req_rating bd \<noteq> JUndefined"
    by (auto simp: recomputes_def split: option.splits jsint.splits)
  with assms(1) Update PUT_success [of st qid b now t3 bd] obtain k e rest u where
    "queryInt qid = Finite k" "selectReview st k = e # rest"
    "snd (PUT st qid b now t3) = updateItemRating (snd (updateReview st k u)) (itemId e) t3"
    by auto
  with assms(3,4) Update show ?thesis
    by (simp add: affectedItem_def first_def aggregateOk_recomputed)
next
  case (Delete qid t3)
  with assms(1) DELETE_success [of st qid t3] obtain k e rest where
    "queryInt qid = Finite k" "selectReview st k = e # rest"
    "snd (DELETE st qid t3) = updateItemRating (snd (deleteReview st k)) (itemId e) t3"
    by auto
  with assms(3,4) Delete show ?thesis
    by (simp add: affectedItem_def first_def aggregateOk_recomputed)
qed

text \<open>
  C2. Requests handled one after the other keep the aggregates consistent: from a store
  whose review ids are distinct and in which the aggregate of every item is the mean and
  the number of its reviews (the mean being the double nearest to the sum divided by the
  number), the same holds after every request of every sequence of
  \<open>POST\<close>, \<open>PUT\<close> and \<open>DELETE\<close> requests, whatever their answers; a \<open>PUT\<close> without
  a rating, which runs no recomputation, keeps it as well. Moreover a request that
  succeeds and runs the recomputation leaves the aggregate of the item it touches equal to
  the mean and the number of that item's reviews, whatever the store was before.
\<close>

theorem run_consistent:
  "(reviewKeys st \<and> consistent st \<longrightarrow>
      (\<forall>n \<le> length qs. consistent (run st (take n qs)))) \<and>
   (succeeded (fst (handle st q)) \<and> recomputes q \<longrightarrow>
      (\<forall>it \<in> set (items (snd (handle st q))).
         Some (item_id it) = affectedItem st q \<longrightarrow> aggregateOk (snd (handle st q)) it))"
  by (simp add: run_invariant handle_recomputed)

theorem run_consistent_witness:
  "reviewKeys freshStore \<and> consistent freshStore \<and>
   consistent (run freshStore
     [Create (Some (exampleBody (JNum (NumFin False 1 1)) (JNum (NumFin False 4 1)))) ''a'' ''a'' ''a'',
      Create (Some (exampleBody (JNum (NumFin False 1 1)) (JNum (NumFin False 2 1)))) ''b'' ''b'' ''b'',
      Update (Some ''2'') (Some ((exampleBody JUndefined JUndefined)\<lparr>req_comment := JStr ''ok''\<rparr>))
        ''c'' ''c'',
      Delete (Some ''1'') ''d'']) \<and>
   succeeded (fst (handle exampleStore (Delete (Some ''1'') ''d''))) \<and>
   recomputes (Delete (Some ''1'') ''d'') \<and>
   (exampleItem 1)\<lparr>averageRating := 2, totalReviews := 1, item_updatedAt := ''d''\<rparr>
     \<in> set (items (snd (handle exampleStore (Delete (Some ''1'') ''d'')))) \<and>
   affectedItem exampleStore (Delete (Some ''1'') ''d'') = Some 1 \<and>
   aggregateOk (snd (handle exampleStore (Delete (Some ''1'') ''d'')))
     ((exampleItem 1)\<lparr>averageRating := 2, totalReviews := 1, item_updatedAt := ''d''\<rparr>)"
proof -
  let ?qs = "[Create (Some (exampleBody (JNum (NumFin False 1 1)) (JNum (NumFin False 4 1)))) ''a'' ''a'' ''a'',
      Create (Some (exampleBody (JNum (NumFin False 1 1)) (JNum (NumFin False 2 1)))) ''b'' ''b'' ''b'',
      Update (Some ''2'') (Some ((exampleBody JUndefined JUndefined)\<lparr>req_comment := JStr ''ok''\<rparr>))
        ''c'' ''c'',
      Delete (Some ''1'') ''d'']"
  let ?q = "Delete (Some ''1'') ''d''"
  let ?it = "(exampleItem 1)\<lparr>averageRating := 2, totalReviews := 1, item_updatedAt := ''d''\<rparr>"
  note r1 = run_consistent [of freshStore ?qs ?q]
  note r2 = run_consistent [of exampleStore ?qs ?q]
  have h1: "reviewKeys freshStore"
    by (simp add: reviewKeys_def freshStore_def)
  have h2: "consistent freshStore"
    by (simp add: consistent_def aggregateOk_def reviewsOfItem_def example_defs)
  have q: "queryInt (Some ''1'') = Finite 1"
    by (simp add: js_defs Let_def)
  have d: "DELETE exampleStore (Some ''1'') ''d'' =
      (Response 200 (DeletedJson ''Review deleted successfully'' 1),
       \<lparr>items = [?it, exampleItem 2],
        reviews = [exampleReview 2 1 2, exampleReview 3 2 5], reviewSeq = 3\<rparr>)"
    by (simp add: DELETE_def q example_defs store_defs Let_def)
  have h3: "succeeded (fst (handle exampleStore ?q))"
    by (simp add: d succeeded_def)
  have h4: "recomputes ?q"
    by (simp add: recomputes_def)
  have h5: "?it \<in> set (items (snd (handle exampleStore ?q)))"
    by (simp add: d)
  have h6: "affectedItem exampleStore ?q = Some 1"
    by (simp add: affectedItem_def q example_defs store_defs)
  have h7: "item_id ?it = 1"
    by (simp add: exampleItem_def)
  from r1 h1 h2 have "consistent (run freshStore (take (length ?qs) ?qs))"
    by blast
  then have a: "consistent (run freshStore ?qs)"
    by simp
  from r2 h3 h4 h5 h6 h7 have b: "aggregateOk (snd (handle exampleStore ?q)) ?it"
    by (metis (no_types, lifting))
  from h1 h2 a h3 h4 h5 h6 b show ?thesis
    by blast
qed

subsection \<open>The range of the average\<close>

lemma ratings_sum_bounds:
  "ratingsInRange rs \<Longrightarrow>
     int (length rs) \<le> sum_list (map rating rs) \<and> sum_list (map rating rs) \<le> 5 * int (length rs)"
  by (induction rs) (auto simp: ratingsInRange_def)

lemma averageOf_range:
  assumes "ratingsInRange rs" "rs \<noteq> []"
  shows "1 \<le> averageOf rs \<and> averageOf rs \<le> 5"
proof -
  let ?s = "sum_list (map rating rs)" and ?n = "int (length rs)"
  from assms(2) have n: "0 < ?n" by simp
  from ratings_sum_bounds [OF assms(1)] have "?n \<le> ?s" "?s \<le> 5 * ?n"
    by simp_all
  then have "(of_int ?n :: rat) \<le> of_int ?s" "(of_int ?s :: rat) \<le> of_int (5 * ?n)"
    by (simp_all only: of_int_le_iff)
  moreover from n have "(0::rat) < of_int ?n" by simp
  ultimately have q: "1 \<le> (of_int ?s :: rat) / of_int ?n" "(of_int ?s :: rat) / of_int ?n \<le> 5"
    by (simp_all add: le_divide_eq divide_le_eq)
  from q(1) have pos: "0 < (of_int ?s :: rat) / of_int ?n"
    by (rule less_le_trans [OF zero_less_one])
  from q(1) have "1 \<le> roundDouble (of_int ?s / of_int ?n)"
    by (rule roundDouble_ge_1)
  moreover from pos q(2) have "roundDouble (of_int ?s / of_int ?n) \<le> 5"
    by (rule roundDouble_le_5)
  ultimately show ?thesis
    using assms(2) by (simp add: averageOf_def foldl_rating_sum)
qed

lemma averageOf_unit_range:
  assumes "ratingsInRange rs"
  shows "0 \<le> averageOf rs \<and> averageOf rs \<le> 5 \<and> (averageOf rs = 0 \<longleftrightarrow> rs = [])"
proof (cases "rs = []")
  case True
  then show ?thesis by (simp add: averageOf_Nil)
next
  case False
  with averageOf_range [OF assms] show ?thesis by auto
qed

lemma ratingsInRange_filter: "ratingsInRange rs \<Longrightarrow> ratingsInRange (filter P rs)"
  by (induction rs) (auto simp: ratingsInRange_def)

lemma ratingsInRange_reviewsOfItem:
  "ratingsInRange (reviews st) \<Longrightarrow> ratingsInRange (reviewsOfItem st i)"
  by (simp add: reviewsOfItem_def ratingsInRange_filter)

lemma averagesInRange_updateItemRating:
  assumes "ratingsInRange (reviews st)" "averagesInRange st"
  shows "averagesInRange (updateItemRating st i now)"
proof -
  from assms(1) have "0 \<le> averageOf (reviewsOfItem st i) \<and> averageOf (reviewsOfItem st i) \<le> 5"
    using averageOf_unit_range [OF ratingsInRange_reviewsOfItem] by blast
  with assms(2) show ?thesis
    unfolding averagesInRange_def items_updateItemRating list_all_iff set_map
    by auto
qed

lemma ratingsInRange_insertReview:
  "ratingsInRange (reviews st) \<Longrightarrow> 1 \<le> r \<Longrightarrow> r \<le> 5 \<Longrightarrow>
     ratingsInRange (reviews (snd (insertReview st i u r t c a b)))"
  by (simp add: ratingsInRange_def insertReview_def Let_def)

lemma averagesInRange_items: "items st' = items st \<Longrightarrow> averagesInRange st' = averagesInRange st"
  by (simp add: averagesInRange_def)

lemma ratingsInRange_updateReview:
  assumes "ratingsInRange (reviews st)"
    and "case u_rating u of None \<Rightarrow> True | Some r \<Rightarrow> 1 \<le> r \<and> r \<le> 5"
  shows "ratingsInRange (reviews (snd (updateReview st k u)))"
proof -
  have "1 \<le> rating (setReview u r) \<and> rating (setReview u r) \<le> 5"
    if "1 \<le> rating r \<and> rating r \<le> 5" for r
    using that assms(2) by (simp add: setReview_def split: option.splits jsint.splits)
  with assms(1) show ?thesis
    unfolding ratingsInRange_def reviews_updateReview list_all_iff set_map
    by auto
qed

lemma ratingsInRange_deleteReview:
  "ratingsInRange (reviews st) \<Longrightarrow> ratingsInRange (reviews (snd (deleteReview st k)))"
  by (simp add: deleteReview_def ratingsInRange_filter)

lemma handle_ranges:
  assumes "ratingsInRange (reviews st)" "averagesInRange st"
  shows "ratingsInRange (reviews (snd (handle st q))) \<and> averagesInRange (snd (handle st q))"
proof (cases q)
  case (Create b t1 t2 t3)
  from POST_store_cases [of st b t1 t2 t3] show ?thesis
  proof
    assume "snd (POST st b t1 t2 t3) = st"
    with assms Create show ?thesis by simp
  next
    assume "\<exists>i u r t c. 1 \<le> r \<and> r \<le> 5 \<and>
      snd (POST st b t1 t2 t3) = updateItemRating (snd (insertReview st i u r t c t1 t2)) i t3"
    then obtain i u r t c where r: "1 \<le> r" "r \<le> 5"
      and eq: "snd (POST st b t1 t2 t3) = updateItemRating (snd (insertReview st i u r t c t1 t2)) i t3"
      by blast
    let ?st1 = "snd (insertReview st i u r t c t1 t2)"
    from assms(1) r have a: "ratingsInRange (reviews ?st1)"
      by (rule ratingsInRange_insertReview)
    from assms(2) have b: "averagesInRange ?st1"
      by (simp add: averagesInRange_items [OF items_insertReview])
    from a b have "averagesInRange (updateItemRating ?st1 i t3)"
      by (rule averagesInRange_updateItemRating)
    with a eq Create show ?thesis
      by (simp add: reviews_updateItemRating)
  qed
next
  case (Update qid b now t3)
  from PUT_store_cases [of st qid b now t3] show ?thesis
  proof
    assume "snd (PUT st qid b now t3) = st"
    with assms Update show ?thesis by simp
  next
    assume "\<exists>k e rest u. selectReview st k = e # rest \<and>
      (case u_rating u of None \<Rightarrow> True | Some r \<Rightarrow> 1 \<le> r \<and> r \<le> 5) \<and>
      snd (PUT st qid b now t3) =
        (case u_rating u of
           None \<Rightarrow> snd (updateReview st k u)
         | Some r \<Rightarrow> updateItemRating (snd (updateReview st k u)) (itemId e) t3)"
    then obtain k and e :: review and u :: updates
      where ok: "case u_rating u of None \<Rightarrow> True | Some r \<Rightarrow> 1 \<le> r \<and> r \<le> 5"
      and eq: "snd (PUT st qid b now t3) =
        (case u_rating u of
           None \<Rightarrow> snd (updateReview st k u)
         | Some r \<Rightarrow> updateItemRating (snd (updateReview st k u)) (itemId e) t3)"
      by blast
    let ?st1 = "snd (updateReview st k u)"
    from assms(1) ok have a: "ratingsInRange (reviews ?st1)"
      by (rule ratingsInRange_updateReview)
    from assms(2) have b: "averagesInRange ?st1"
      by (simp add: averagesInRange_items [OF items_updateReview])
    from a b have "averagesInRange (updateItemRating ?st1 (itemId e) t3)"
      by (rule averagesInRange_updateItemRating)
    with a b eq Update show ?thesis
      by (simp add: reviews_updateItemRating split: option.splits jsint.splits)
  qed
next
  case (Delete qid t3)
  from DELETE_store_cases [of st qid t3] show ?thesis
  proof
    assume "snd (DELETE st qid t3) = st"
    with assms Delete show ?thesis by simp
  next
    assume "\<exists>k e rest. selectReview st k = e # rest \<and>
      snd (DELETE st qid t3) = updateItemRating (snd (deleteReview st k)) (itemId e) t3"
    then obtain k and e :: review where
      eq: "snd (DELETE st qid t3) = updateItemRating (snd (deleteReview st k)) (itemId e) t3"
      by blast
    let ?st1 = "snd (deleteReview st k)"
    from assms(1) have a: "ratingsInRange (reviews ?st1)"
      by (rule ratingsInRange_deleteReview)
    from assms(2) have b: "averagesInRange ?st1"
      by (simp add: averagesInRange_items [OF items_deleteReview])
    from a b have "averagesInRange (updateItemRating ?st1 (itemId e) t3)"
      by (rule averagesInRange_updateItemRating)
    with a eq Delete show ?thesis
      by (simp add: reviews_updateItemRating)
  qed
qed

text \<open>
  C8. Where every review of an item has a rating from 1 to 5, the average that
  \<open>updateItemRating\<close> writes for the item, the double nearest to the sum divided by the
  number, lies between 0 and 5; it is 0 exactly when the item has no review, and at
  least 1 otherwise. Every handler keeps the stored ratings between 1 and 5 and the
  stored averages between 0 and 5.
\<close>

theorem averageRating_range:
  "(ratingsInRange (reviewsOfItem st i) \<longrightarrow>
      (\<forall>it \<in> set (items (updateItemRating st i now)). item_id it = i \<longrightarrow>
         0 \<le> averageRating it \<and> averageRating it \<le> 5 \<and>
         (averageRating it = 0 \<longleftrightarrow> reviewsOfItem st i = []) \<and>
         (reviewsOfItem st i \<noteq> [] \<longrightarrow> 1 \<le> averageRating it))) \<and>
   (ratingsInRange (reviews st) \<and> averagesInRange st \<longrightarrow>
      ratingsInRange (reviews (snd (handle st q))) \<and> averagesInRange (snd (handle st q)))"
proof -
  let ?rs = "reviewsOfItem st i"
  have first: "\<forall>it \<in> set (items (updateItemRating st i now)). item_id it = i \<longrightarrow>
            0 \<le> averageRating it \<and> averageRating it \<le> 5 \<and>
            (averageRating it = 0 \<longleftrightarrow> reviewsOfItem st i = []) \<and>
            (reviewsOfItem st i \<noteq> [] \<longrightarrow> 1 \<le> averageRating it)"
    if rs: "ratingsInRange ?rs"
  proof -
    have a: "0 \<le> averageOf ?rs \<and> averageOf ?rs \<le> 5 \<and> (averageOf ?rs = 0 \<longleftrightarrow> ?rs = [])"
      using rs by (rule averageOf_unit_range)
    have b: "?rs \<noteq> [] \<longrightarrow> 1 \<le> averageOf ?rs"
      using averageOf_range [OF rs] by blast
    have "averageRating it = averageOf ?rs"
      if "it \<in> set (items (updateItemRating st i now))" "item_id it = i" for it
    proof -
      from that(1) obtain x where x: "it = (if item_id x = i
                 then x\<lparr>averageRating := averageOf (reviewsOfItem st i),
                         totalReviews := int (length (reviewsOfItem st i)),
                         item_updatedAt := now\<rparr>
                 else x)"
        unfolding items_updateItemRating set_map by blast
      show ?thesis
      proof (cases "item_id x = i")
        case True
        with x show ?thesis by simp
      next
        case False
        with x that(2) show ?thesis by simp
      qed
    qed
    with a b show ?thesis
      by simp
  qed
  have second: "ratingsInRange (reviews st) \<and> averagesInRange st \<longrightarrow>
            ratingsInRange (reviews (snd (handle st q))) \<and> averagesInRange (snd (handle st q))"
    using handle_ranges by blast
  from first second show ?thesis
    by blast
qed

theorem averageRating_range_witness:
  "ratingsInRange (reviewsOfItem exampleStore 1) \<and>
   ratingsInRange (reviews exampleStore) \<and> averagesInRange exampleStore \<and>
   (exampleItem 1)\<lparr>averageRating := 3, totalReviews := 2, item_updatedAt := ''now''\<rparr>
     \<in> set (items (updateItemRating exampleStore 1 ''now'')) \<and>
   reviewsOfItem exampleStore 1 \<noteq> [] \<and>
   1 \<le> averageRating
          ((exampleItem 1)\<lparr>averageRating := 3, totalReviews := 2, item_updatedAt := ''now''\<rparr>) \<and>
   averageRating
     ((exampleItem 1)\<lparr>averageRating := 3, totalReviews := 2, item_updatedAt := ''now''\<rparr>) \<le> 5 \<and>
   ratingsInRange (reviews (snd (handle exampleStore (Delete (Some ''1'') ''now'')))) \<and>
   averagesInRange (snd (handle exampleStore (Delete (Some ''1'') ''now'')))"
proof -
  let ?it = "(exampleItem 1)\<lparr>averageRating := 3, totalReviews := 2, item_updatedAt := ''now''\<rparr>"
  have h0: "ratingsInRange (reviewsOfItem exampleStore 1)"
    by (simp add: ratingsInRange_def example_defs reviewsOfItem_def)
  have h1: "ratingsInRange (reviews exampleStore)"
    by (simp add: ratingsInRange_def example_defs)
  have h2: "averagesInRange exampleStore"
    by (simp add: averagesInRange_def example_defs)
  have h3: "?it \<in> set (items (updateItemRating exampleStore 1 ''now''))"
    by (simp add: example_defs store_defs)
  have h4: "item_id ?it = 1"
    by (simp add: exampleItem_def)
  have h5: "reviewsOfItem exampleStore 1 \<noteq> []"
    by (simp add: example_defs reviewsOfItem_def)
  note r = averageRating_range [of exampleStore 1 "''now''" "Delete (Some ''1'') ''now''"]
  from r h0 h3 h4 h5 have a: "1 \<le> averageRating ?it \<and> averageRating ?it \<le> 5"
    by blast
  from r h1 h2
  have b: "ratingsInRange (reviews (snd (handle exampleStore (Delete (Some ''1'') ''now'')))) \<and>
    averagesInRange (snd (handle exampleStore (Delete (Some ''1'') ''now'')))"
    by blast
  from h0 h1 h2 h3 h5 a b show ?thesis
    by blast
qed

section \<open>The order of the list of reviews\<close>

lemma mset_insertBy: "mset (insertBy le x xs) = add_mset x (mset xs)"
  by (induction xs) auto

lemma mset_orderBy: "mset (orderBy le xs) = mset xs"
  by (induction xs) (simp_all add: orderBy_def mset_insertBy)

lemma set_insertBy: "set (insertBy le x xs) = insert x (set xs)"
  by (induction xs) auto

lemma sorted_insertBy:
  assumes total: "\<And>a b. le a b \<or> le b a" and trans: "\<And>a b c. le a b \<Longrightarrow> le b c \<Longrightarrow> le a c"
  shows "sorted_wrt le xs \<Longrightarrow> sorted_wrt le (insertBy le x xs)"
proof (induction xs)
  case Nil
  then show ?case by simp
next
  case (Cons y ys)
  show ?case
  proof (cases "le x y")
    case True
    with Cons.prems trans show ?thesis by auto
  next
    case False
    with total have "le y x" by blast
    with Cons False show ?thesis
      by (auto simp: set_insertBy)
  qed
qed

lemma sorted_orderBy:
  assumes "\<And>a b. le a b \<or> le b a" and "\<And>a b c. le a b \<Longrightarrow> le b c \<Longrightarrow> le a c"
  shows "sorted_wrt le (orderBy le xs)"
proof (induction xs)
  case Nil
  then show ?case by (simp add: orderBy_def)
next
  case (Cons x xs)
  have "orderBy le (x # xs) = insertBy le x (orderBy le xs)"
    by (simp add: orderBy_def)
  with Cons sorted_insertBy [of le, OF assms] show ?case
    by simp
qed

lemma sorted_asc: "sorted_wrt (asc col) (orderBy (asc col) xs)"
  by (rule sorted_orderBy) (auto simp: asc_def)

lemma sorted_desc: "sorted_wrt (desc col) (orderBy (desc col) xs)"
  by (rule sorted_orderBy) (auto simp: desc_def)

text \<open>
  C10. The parameter \<open>sort\<close> has no effect on \<open>GET\<close>: its answer is the same for every
  value of \<open>sort\<close>. The answer to a request for the list is ordered by \<^verbatim>\<open>createdAt\<close>
  whatever \<open>sort\<close> names, ascending where \<open>order\<close> is \<^verbatim>\<open>asc\<close> and descending
  otherwise: it is the page that the limit and the offset cut from the selected rows put
  in that order.
\<close>

theorem GET_sort_ignored:
  "GET oddPage st qid qitemId qlimit qoffset qsort qorder =
     GET oddPage st qid qitemId qlimit qoffset qsort' qorder \<and>
   ((qid = None \<or> qid = Some []) \<and> itemFilter st qitemId = Inr rows \<and>
    min100 (parseIntStr (orDefault qlimit ''10'')) = Finite l \<and> 0 < l \<and>
    parseIntStr (orDefault qoffset ''0'') = Finite off \<and> 0 \<le> off \<and> off \<le> 2 ^ 53 \<longrightarrow>
    (\<exists>ordered.
       mset ordered = mset rows \<and>
       sorted_wrt (\<lambda>a b. if orDefault qorder ''desc'' = ''asc''
                          then review_createdAt a \<le> review_createdAt b
                          else review_createdAt b \<le> review_createdAt a) ordered \<and>
       GET oddPage st qid qitemId qlimit qoffset qsort qorder =
         Response 200 (RowsJson (take (nat l) (drop (nat off) ordered)))))"
proof -
  have same: "GET oddPage st qid qitemId qlimit qoffset qsort qorder =
     GET oddPage st qid qitemId qlimit qoffset qsort' qorder"
    unfolding GET_def orderedRows_def Let_def if_cancel ..
  have page: "\<exists>ordered.
       mset ordered = mset rows \<and>
       sorted_wrt (\<lambda>a b. if orDefault qorder ''desc'' = ''asc''
                          then review_createdAt a \<le> review_createdAt b
                          else review_createdAt b \<le> review_createdAt a) ordered \<and>
       GET oddPage st qid qitemId qlimit qoffset qsort qorder =
         Response 200 (RowsJson (take (nat l) (drop (nat off) ordered)))"
    if h: "qid = None \<or> qid = Some []" "itemFilter st qitemId = Inr rows"
      "min100 (parseIntStr (orDefault qlimit ''10'')) = Finite l" "0 < l"
      "parseIntStr (orDefault qoffset ''0'') = Finite off" "0 \<le> off" "off \<le> 2 ^ 53"
  proof -
    let ?ordered = "orderedRows (orDefault qsort ''createdAt'') (orDefault qorder ''desc'') rows"
    have m: "mset ?ordered = mset rows"
      by (simp add: orderedRows_def mset_orderBy)
    have "sorted_wrt (if orDefault qorder ''desc'' = ''asc''
                      then asc review_createdAt else desc review_createdAt) ?ordered"
      by (simp add: orderedRows_def sorted_asc sorted_desc)
    moreover have "asc review_createdAt = (\<lambda>a b. review_createdAt a \<le> review_createdAt b)"
      "desc review_createdAt = (\<lambda>a b. review_createdAt b \<le> review_createdAt a)"
      by (intro ext, simp add: asc_def desc_def)+
    ultimately have o: "sorted_wrt (\<lambda>a b. if orDefault qorder ''desc'' = ''asc''
                          then review_createdAt a \<le> review_createdAt b
                          else review_createdAt b \<le> review_createdAt a) ?ordered"
      by (cases "orDefault qorder ''desc'' = ''asc''") simp_all
    have "GET oddPage st qid qitemId qlimit qoffset qsort qorder =
        Response 200 (RowsJson (take (nat l) (drop (nat off) ?ordered)))"
      using h by (auto simp: GET_def Let_def limitOffset_def)
    with m o show ?thesis
      by blast
  qed
  from same page show ?thesis
    by blast
qed

theorem GET_sort_ignored_witness:
  "itemFilter datedStore (Some ''1'') = Inr (reviews datedStore) \<and>
   min100 (parseIntStr (orDefault (Some ''2'') ''10'')) = Finite 2 \<and>
   parseIntStr (orDefault None ''0'') = Finite 0 \<and>
   (\<exists>ordered.
      mset ordered = mset (reviews datedStore) \<and>
      sorted_wrt (\<lambda>a b. review_createdAt a \<le> review_createdAt b) ordered \<and>
      GET (\<lambda>limit offset rows. bindError) datedStore None (Some ''1'') (Some ''2'') None (Some ''rating'') (Some ''asc'') =
        Response 200 (RowsJson (take 2 ordered))) \<and>
   GET (\<lambda>limit offset rows. bindError) datedStore None (Some ''1'') (Some ''2'') None (Some ''rating'') (Some ''asc'') =
     Response 200 (RowsJson
       [(exampleReview 2 1 3)\<lparr>review_createdAt := ''2024-01-01''\<rparr>,
        (exampleReview 3 1 5)\<lparr>review_createdAt := ''2024-02-01''\<rparr>]) \<and>
   GET (\<lambda>limit offset rows. bindError) datedStore None (Some ''1'') (Some ''2'') None (Some ''rating'') None =
     Response 200 (RowsJson
       [(exampleReview 1 1 4)\<lparr>review_createdAt := ''2024-03-01''\<rparr>,
        (exampleReview 3 1 5)\<lparr>review_createdAt := ''2024-02-01''\<rparr>])"
proof -
  have p1: "parseIntStr ''1'' = Finite 1" and p2: "parseIntStr ''2'' = Finite 2"
    and p0: "parseIntStr ''0'' = Finite 0"
    by (simp_all add: js_defs Let_def)
  have f: "itemFilter datedStore (Some ''1'') = Inr (reviews datedStore)"
    by (simp add: itemFilter_def p1) (simp add: reviewsOfItem_def example_defs)
  have l: "min100 (parseIntStr (orDefault (Some ''2'') ''10'')) = Finite 2"
    by (simp add: orDefault_def p2 min100_def)
  have off: "parseIntStr (orDefault None ''0'') = Finite 0"
    by (simp add: orDefault_def p0)
  have le: "''2024-01-01'' \<le> ''2024-02-01''" "''2024-02-01'' \<le> ''2024-03-01''"
    "''2024-01-01'' \<le> ''2024-03-01''" "\<not> ''2024-02-01'' \<le> ''2024-01-01''"
    "\<not> ''2024-03-01'' \<le> ''2024-02-01''" "\<not> ''2024-03-01'' \<le> ''2024-01-01''"
    by (simp_all add: less_char_def less_eq_char_def)
  have ordered:
    "orderedRows ''rating'' ''asc'' (reviews datedStore) =
       [(exampleReview 2 1 3)\<lparr>review_createdAt := ''2024-01-01''\<rparr>,
        (exampleReview 3 1 5)\<lparr>review_createdAt := ''2024-02-01''\<rparr>,
        (exampleReview 1 1 4)\<lparr>review_createdAt := ''2024-03-01''\<rparr>]"
    "orderedRows ''rating'' ''desc'' (reviews datedStore) =
       [(exampleReview 1 1 4)\<lparr>review_createdAt := ''2024-03-01''\<rparr>,
        (exampleReview 3 1 5)\<lparr>review_createdAt := ''2024-02-01''\<rparr>,
        (exampleReview 2 1 3)\<lparr>review_createdAt := ''2024-01-01''\<rparr>]"
    by (simp_all add: orderedRows_def orderBy_def asc_def desc_def datedStore_def
        exampleReview_def le)
  have asc: "GET (\<lambda>limit offset rows. bindError) datedStore None (Some ''1'') (Some ''2'') None (Some ''rating'') (Some ''asc'') =
     Response 200 (RowsJson
       [(exampleReview 2 1 3)\<lparr>review_createdAt := ''2024-01-01''\<rparr>,
        (exampleReview 3 1 5)\<lparr>review_createdAt := ''2024-02-01''\<rparr>])"
    by (simp add: GET_def Let_def f p2 p0 min100_def orDefault_def limitOffset_def ordered)
  have desc: "GET (\<lambda>limit offset rows. bindError) datedStore None (Some ''1'') (Some ''2'') None (Some ''rating'') None =
     Response 200 (RowsJson
       [(exampleReview 1 1 4)\<lparr>review_createdAt := ''2024-03-01''\<rparr>,
        (exampleReview 3 1 5)\<lparr>review_createdAt := ''2024-02-01''\<rparr>])"
    by (simp add: GET_def Let_def f p2 p0 min100_def orDefault_def limitOffset_def ordered)
  have o: "orDefault (Some ''asc'') ''desc'' = ''asc''"
    by (simp add: orDefault_def)
  from GET_sort_ignored [of "\<lambda>limit offset rows. bindError" datedStore None "Some ''1''" "Some ''2''" None
      "Some ''rating''" "Some ''asc''" "Some ''rating''" "reviews datedStore" 2 0] f l off
  have "\<exists>ordered.
      mset ordered = mset (reviews datedStore) \<and>
      sorted_wrt (\<lambda>a b. if orDefault (Some ''asc'') ''desc'' = ''asc''
                          then review_createdAt a \<le> review_createdAt b
                          else review_createdAt b \<le> review_createdAt a) ordered \<and>
      GET (\<lambda>limit offset rows. bindError) datedStore None (Some ''1'') (Some ''2'') None (Some ''rating'') (Some ''asc'') =
        Response 200 (RowsJson (take (nat 2) (drop (nat 0) ordered)))"
    by simp
  then have "\<exists>ordered.
      mset ordered = mset (reviews datedStore) \<and>
      sorted_wrt (\<lambda>a b. review_createdAt a \<le> review_createdAt b) ordered \<and>
      GET (\<lambda>limit offset rows. bindError) datedStore None (Some ''1'') (Some ''2'') None (Some ''rating'') (Some ''asc'') =
        Response 200 (RowsJson (take 2 ordered))"
    unfolding o by simp
  with f l off asc desc show ?thesis
    by blast
qed

section \<open>Creations one after the other, and interleaved\<close>

lemma updateItemRating_write:
  "updateItemRating st i now = writeItemRating st i (reviewsOfItem st i) now"
  by (simp add: updateItemRating_def writeItemRating_def Let_def)

lemma averageOf_fives:
  assumes "list_all (\<lambda>r. rating r = 5) rs" "rs \<noteq> []"
  shows "averageOf rs = 5"
proof -
  from assms(1) have "sum_list (map rating rs) = 5 * int (length rs)"
    by (induction rs) auto
  with assms(2) show ?thesis
    by (simp add: averageOf_def foldl_rating_sum roundDouble_numeral)
qed

lemma commentValue_cases: "commentValue c = Inl TypeError \<or> (\<exists>v. commentValue c = Inr v)"
  by (simp add: commentValue_def)

lemma fiveTask_mono: "fiveTask i m t \<Longrightarrow> m \<le> m' \<Longrightarrow> fiveTask i m' t"
  by (cases t) auto

lemma list_all_update: "list_all P xs \<Longrightarrow> P x \<Longrightarrow> list_all P (xs[p := x])"
  using set_update_subset_insert [of xs p x] by (auto simp: list_all_iff)

lemma list_ex_update: "list_ex P (xs[p := x]) \<Longrightarrow> P x \<or> list_ex P xs"
  using set_update_subset_insert [of xs p x] by (auto simp: list_ex_iff)

lemma inserts_update:
  "p < length ts \<Longrightarrow>
     sum_list (map inserts (ts[p := t])) + inserts (ts ! p) = sum_list (map inserts ts) + inserts t"
proof (induction ts arbitrary: p)
  case Nil
  then show ?case by simp
next
  case (Cons a ts)
  then show ?case by (cases p) auto
qed

lemma selectItem_writeItemRating:
  "selectItem (writeItemRating st i rs now) i =
     map (\<lambda>it. it\<lparr>averageRating := averageOf rs, totalReviews := int (length rs),
                    item_updatedAt := now\<rparr>) (selectItem st i)"
  by (simp add: selectItem_def writeItemRating_def take1_filter_map_item)

lemma reviewsOfItem_writeItemRating:
  "reviewsOfItem (writeItemRating st i rs now) j = reviewsOfItem st j"
  by (simp add: reviewsOfItem_def writeItemRating_def)

lemma reviewsOfItem_insertReview:
  "\<exists>row. rating row = r \<and>
     reviewsOfItem (snd (insertReview st i u r t c a b)) i = reviewsOfItem st i @ [row]"
  by (simp add: reviewsOfItem_def insertReview_def Let_def)

lemma selectItem_insertReview:
  "selectItem (snd (insertReview st i u r t c a b)) j = selectItem st j"
  by (simp add: selectItem_def insertReview_def Let_def)

lemma advance_fiveInv:
  assumes inv: "fiveInv i st ts" and p: "p < length ts" and adv: "advance st (ts ! p) = (t, st1)"
  shows "fiveInv i st1 (ts[p := t])"
proof -
  let ?m = "length (reviewsOfItem st i)"
  from inv obtain it :: item where cnt: "?m = sum_list (map inserts ts)"
    and five: "list_all (\<lambda>r. rating r = 5) (reviewsOfItem st i)"
    and tasks: "list_all (fiveTask i ?m) ts"
    and sel: "selectItem st i = [it]"
    and agg: "list_ex finished ts \<Longrightarrow>
        averageRating it = 5 \<and> 1 \<le> totalReviews it \<and> totalReviews it \<le> int ?m"
    by (auto simp: fiveInv_def split: list.splits if_splits)
  from tasks p have task: "fiveTask i ?m (ts ! p)"
    by (simp add: list_all_length)
  note upd = inserts_update [OF p, of t]
  have mem: "inserts (ts ! p) \<le> sum_list (map inserts ts)"
    using p by (intro member_le_sum_list) simp_all
  show ?thesis
  proof (cases "ts ! p")
    case (Received request t1 t2 t3)
    with task obtain b where b: "request = Some b" and v: "validFive i b"
      by (auto split: option.splits)
    from v sel adv Received b have t: "t = Found i 5 b t1 t2 t3" and st1: "st1 = st"
      by (auto simp: validFive_def)
    from v have ft: "fiveTask i ?m t"
      by (simp add: t validFive_def)
    have ex: "list_ex finished (ts[p := t]) \<Longrightarrow> list_ex finished ts"
      using list_ex_update [of finished ts p t] by (simp add: t)
    from upd Received have "sum_list (map inserts (ts[p := t])) = sum_list (map inserts ts)"
      by (simp add: t)
    with cnt five sel agg ex list_all_update [OF tasks ft, of p] show ?thesis
      unfolding st1 fiveInv_def by auto
  next
    case (Found j r b t1 t2 t3)
    with task have j: "j = i" and r: "r = 5" and c: "commentValue (req_comment b) \<noteq> Inl TypeError"
      by simp_all
    from c commentValue_cases [of "req_comment b"] obtain v
      where v: "commentValue (req_comment b) = Inr v"
      by blast
    let ?ins = "insertReview st i (trim (strOf (req_userId b))) 5 (trim (strOf (req_title b))) v t1 t2"
    from adv Found j r v have t: "t = Inserted (fst ?ins) i t3" and st1: "st1 = snd ?ins"
      by (simp_all add: split_beta Let_def)
    from reviewsOfItem_insertReview [of 5 st i "trim (strOf (req_userId b))"
        "trim (strOf (req_title b))" v t1 t2]
    obtain row where row: "rating row = 5"
      and rs: "reviewsOfItem st1 i = reviewsOfItem st i @ [row]"
      unfolding st1 by blast
    have sel1: "selectItem st1 i = [it]"
      unfolding st1 by (simp add: selectItem_insertReview sel)
    have len: "length (reviewsOfItem st1 i) = Suc ?m"
      by (simp add: rs)
    from upd Found have "sum_list (map inserts (ts[p := t])) = Suc (sum_list (map inserts ts))"
      by (simp add: t)
    with cnt len have cnt1: "length (reviewsOfItem st1 i) = sum_list (map inserts (ts[p := t]))"
      by simp
    from five row have five1: "list_all (\<lambda>r. rating r = 5) (reviewsOfItem st1 i)"
      by (simp add: rs)
    have "list_all (fiveTask i (Suc ?m)) ts"
      using tasks by (auto simp: list_all_iff intro: fiveTask_mono)
    moreover have "fiveTask i (Suc ?m) t"
      by (simp add: t)
    ultimately have tasks1: "list_all (fiveTask i (length (reviewsOfItem st1 i))) (ts[p := t])"
      unfolding len by (rule list_all_update)
    have ex: "list_ex finished (ts[p := t]) \<Longrightarrow> list_ex finished ts"
      using list_ex_update [of finished ts p t] by (simp add: t)
    from agg ex have "list_ex finished (ts[p := t]) \<Longrightarrow>
        averageRating it = 5 \<and> 1 \<le> totalReviews it \<and>
        totalReviews it \<le> int (length (reviewsOfItem st1 i))"
      unfolding len by fastforce
    with cnt1 five1 tasks1 sel1 show ?thesis
      unfolding fiveInv_def by auto
  next
    case (Inserted newReview j t3)
    with task have j: "j = i"
      by simp
    from adv Inserted j have t: "t = Selected newReview (reviewsOfItem st i) i t3" and st1: "st1 = st"
      by auto
    from mem Inserted cnt have pos: "1 \<le> ?m"
      by simp
    then have "reviewsOfItem st i \<noteq> []"
      by auto
    with five have ft: "fiveTask i ?m t"
      by (simp add: t)
    have ex: "list_ex finished (ts[p := t]) \<Longrightarrow> list_ex finished ts"
      using list_ex_update [of finished ts p t] by (simp add: t)
    from upd Inserted have "sum_list (map inserts (ts[p := t])) = sum_list (map inserts ts)"
      by (simp add: t)
    with cnt five sel agg ex list_all_update [OF tasks ft, of p] show ?thesis
      unfolding st1 fiveInv_def by auto
  next
    case (Selected newReview itemReviews j t3)
    with task have j: "j = i" and ne: "itemReviews \<noteq> []"
      and fives: "list_all (\<lambda>r. rating r = 5) itemReviews" and le: "length itemReviews \<le> ?m"
      by simp_all
    from adv Selected j have t: "t = Finished (Response 201 (RowJson (first newReview)))"
      and st1: "st1 = writeItemRating st i itemReviews t3"
      by simp_all
    have rs: "reviewsOfItem st1 i = reviewsOfItem st i"
      unfolding st1 by (rule reviewsOfItem_writeItemRating)
    let ?it = "it\<lparr>averageRating := averageOf itemReviews,
                   totalReviews := int (length itemReviews), item_updatedAt := t3\<rparr>"
    have sel1: "selectItem st1 i = [?it]"
      unfolding st1 by (simp add: selectItem_writeItemRating sel)
    from fives ne have avg: "averageOf itemReviews = 5"
      by (rule averageOf_fives)
    from ne have "1 \<le> length itemReviews"
      by (cases itemReviews) simp_all
    with le avg have agg1: "averageRating ?it = 5 \<and> 1 \<le> totalReviews ?it \<and>
        totalReviews ?it \<le> int (length (reviewsOfItem st1 i))"
      unfolding rs by simp
    have ft: "fiveTask i ?m t"
      by (simp add: t)
    from upd Selected have "sum_list (map inserts (ts[p := t])) = sum_list (map inserts ts)"
      by (simp add: t)
    with cnt five agg1 list_all_update [OF tasks ft, of p] show ?thesis
      unfolding fiveInv_def rs sel1 by auto
  next
    case (Finished response)
    with adv have "t = ts ! p" "st1 = st"
      by simp_all
    with inv show ?thesis
      by simp
  qed
qed

lemma interleave_fiveInv:
  "fiveInv i st ts \<Longrightarrow> fiveInv i (snd (interleave st ts ps)) (fst (interleave st ts ps))"
proof (induction ps arbitrary: st ts)
  case Nil
  then show ?case by simp
next
  case (Cons p ps)
  show ?case
  proof (cases "p < length ts")
    case True
    obtain t st1 where a: "advance st (ts ! p) = (t, st1)"
      by (cases "advance st (ts ! p)") auto
    from Cons.prems True a have "fiveInv i st1 (ts[p := t])"
      by (rule advance_fiveInv)
    from Cons.IH [OF this] True a show ?thesis
      by simp
  next
    case False
    with Cons show ?thesis by simp
  qed
qed

lemma length_interleave: "length (fst (interleave st ts ps)) = length ts"
proof (induction ps arbitrary: st ts)
  case Nil
  then show ?case by simp
next
  case (Cons p ps)
  then show ?case
    by (cases "advance st (ts ! p)") simp
qed

lemma inserts_finished: "list_all finished ts \<Longrightarrow> sum_list (map inserts ts) = length ts"
proof (induction ts)
  case Nil
  then show ?case by simp
next
  case (Cons t ts)
  then show ?case by (cases t) simp_all
qed

lemma statuses_finished:
  "list_all finished ts \<Longrightarrow> list_all (fiveTask i m) ts \<Longrightarrow>
     map (\<lambda>t. case t of Finished r \<Rightarrow> status r | _ \<Rightarrow> 0) ts = replicate (length ts) 201"
proof (induction ts)
  case Nil
  then show ?case by simp
next
  case (Cons t ts)
  then show ?case by (cases t) simp_all
qed

lemma advance_alone:
  "interleave st [Received request t1 t2 t3] [0, 0, 0, 0] =
     ([Finished (fst (POST st request t1 t2 t3))], snd (POST st request t1 t2 t3))"
  by (auto simp: POST_def Let_def split_beta updateItemRating_write
      split: option.splits sum.splits jsint.splits)

lemma interleave_four:
  assumes "p < length ts" "ts ! p = Received request t1 t2 t3"
  shows "interleave st ts (p # p # p # p # ps) =
     interleave (snd (POST st request t1 t2 t3))
       (ts[p := Finished (fst (POST st request t1 t2 t3))]) ps"
  using assms
  by (auto simp: POST_def Let_def split_beta updateItemRating_write
      split: option.splits sum.splits jsint.splits)

lemma serialSchedule_Suc: "serialSchedule k (Suc n) = [k, k, k, k] @ serialSchedule (Suc k) n"
  by (simp add: serialSchedule_def upt_conv_Cons)

lemma serial_is_run:
  "length fin = k \<Longrightarrow> list_all finished fin \<Longrightarrow>
   snd (interleave st (fin @ map (\<lambda>(b, stamps). received b stamps) cs)
          (serialSchedule k (length cs)))
     = run st (map (\<lambda>(b, stamps). create b stamps) cs) \<and>
   list_all finished
     (fst (interleave st (fin @ map (\<lambda>(b, stamps). received b stamps) cs)
             (serialSchedule k (length cs))))"
proof (induction cs arbitrary: st fin k)
  case Nil
  then show ?case by (simp add: serialSchedule_def)
next
  case (Cons x xs)
  obtain b t1 t2 t3 where x: "x = (b, t1, t2, t3)"
    by (cases x) auto
  let ?ts = "fin @ map (\<lambda>(b, stamps). received b stamps) (x # xs)"
  let ?f = "Finished (fst (POST st (Some b) t1 t2 t3))"
  let ?st1 = "snd (POST st (Some b) t1 t2 t3)"
  from Cons.prems have p: "k < length ?ts" and at: "?ts ! k = Received (Some b) t1 t2 t3"
    by (simp_all add: nth_append received_def x)
  from Cons.prems
  have upd: "?ts[k := ?f] = (fin @ [?f]) @ map (\<lambda>(b, stamps). received b stamps) xs"
    by (simp add: list_update_append)
  have step: "interleave st ?ts (serialSchedule k (length (x # xs)))
      = interleave ?st1 ((fin @ [?f]) @ map (\<lambda>(b, stamps). received b stamps) xs)
          (serialSchedule (Suc k) (length xs))"
  proof -
    have "serialSchedule k (length (x # xs)) = k # k # k # k # serialSchedule (Suc k) (length xs)"
      by (simp add: serialSchedule_Suc)
    then show ?thesis
      unfolding upd [symmetric] by (simp only: interleave_four [OF p at])
  qed
  from Cons.prems have "length (fin @ [?f]) = Suc k" "list_all finished (fin @ [?f])"
    by simp_all
  from Cons.IH [OF this, of ?st1] show ?case
    unfolding step by (simp add: create_def x)
qed

lemma POST_five:
  assumes "validFive i b" and "fiveStarItem st i m"
  shows "fiveStarItem (snd (POST st (Some b) t1 t2 t3)) i (Suc m)"
proof -
  from assms(1) have v: "fieldInt (req_itemId b) = Finite i" "\<not> blankString (req_userId b)"
    "fieldInt (req_rating b) = Finite 5" "\<not> blankString (req_title b)"
    "commentValue (req_comment b) \<noteq> Inl TypeError"
    by (simp_all add: validFive_def)
  from v(5) commentValue_cases [of "req_comment b"] obtain c
    where c: "commentValue (req_comment b) = Inr c"
    by blast
  from assms(2) obtain it where it: "selectItem st i = [it]"
    by (auto simp: fiveStarItem_def split: list.splits)
  let ?st1 = "snd (insertReview st i (trim (strOf (req_userId b))) 5 (trim (strOf (req_title b))) c t1 t2)"
  let ?row = "\<lparr>review_id = nextReviewId st, itemId = i, userId = trim (strOf (req_userId b)),
      rating = 5, title = trim (strOf (req_title b)), comment = c,
      review_createdAt = t1, review_updatedAt = t2\<rparr>"
  from v(1-4) c it have post: "snd (POST st (Some b) t1 t2 t3) = updateItemRating ?st1 i t3"
    by (simp add: POST_def Let_def split_beta)
  have rs: "reviewsOfItem ?st1 i = reviewsOfItem st i @ [?row]"
    by (simp add: reviewsOfItem_def insertReview_def Let_def)
  have sel: "selectItem ?st1 i = [it]"
    using it by (simp add: selectItem_def insertReview_def Let_def)
  from assms(2) have five: "list_all (\<lambda>r. rating r = 5) (reviewsOfItem ?st1 i)"
    and len: "length (reviewsOfItem ?st1 i) = Suc m"
    by (simp_all add: rs fiveStarItem_def)
  from five have avg: "averageOf (reviewsOfItem ?st1 i) = 5"
    by (rule averageOf_fives) (simp add: rs)
  show ?thesis
    unfolding post fiveStarItem_def reviewsOfItem_updateItemRating selectItem_updateItemRating
    using five len avg sel by simp
qed

lemma run_five:
  "list_all (\<lambda>(b, stamps). validFive i b) cs \<Longrightarrow> fiveStarItem st i m \<Longrightarrow>
     fiveStarItem (run st (map (\<lambda>(b, stamps). create b stamps) cs)) i (m + length cs)"
proof (induction cs arbitrary: st m)
  case Nil
  then show ?case by simp
next
  case (Cons x xs)
  obtain b t1 t2 t3 where x: "x = (b, t1, t2, t3)"
    by (cases x) auto
  from Cons.prems(1) have v: "validFive i b" and vs: "list_all (\<lambda>(b, stamps). validFive i b) xs"
    by (simp_all add: x)
  from POST_five [OF v Cons.prems(2)]
  have "fiveStarItem (snd (POST st (Some b) t1 t2 t3)) i (Suc m)" .
  from Cons.IH [OF vs this] show ?case
    by (simp add: create_def x)
qed

lemma received_fiveInv:
  assumes "selectItem st i = [it]" and "reviewsOfItem st i = []"
    and "list_all (\<lambda>(b, stamps). validFive i b) cs"
  shows "fiveInv i st (map (\<lambda>(b, stamps). received b stamps) cs)"
proof -
  let ?ts = "map (\<lambda>(b, stamps). received b stamps) cs"
  have "sum_list (map inserts ?ts) = 0"
    by (induction cs) (auto simp: received_def)
  moreover have "\<not> list_ex finished ?ts"
    by (induction cs) (auto simp: received_def)
  moreover from assms(3) have "list_all (fiveTask i 0) ?ts"
    by (induction cs) (auto simp: received_def)
  ultimately show ?thesis
    using assms(1,2) by (simp add: fiveInv_def)
qed

text \<open>
  C9. \<open>N\<close> requests (\<open>N\<close> at least 1) create a review of rating 5 for an item that is in
  the store and has no review; the requests are valid and may differ in everything
  else. Whatever the interleaving of their handlers, once all have answered, all have
  answered 201, the item has \<open>N\<close> reviews, all of rating 5, its \<open>averageRating\<close> is 5,
  and its \<open>totalReviews\<close> is at least 1 and at most \<open>N\<close>. Where the handlers run one
  after the other, each to its end before the next begins, all answer and
  \<open>totalReviews\<close> is \<open>N\<close>.
\<close>

theorem concurrent_creates:
  assumes item: "selectItem st i = [it]" and none: "reviewsOfItem st i = []"
    and some: "cs \<noteq> []" and valid: "list_all (\<lambda>(b, stamps). validFive i b) cs"
    and run: "interleave st (map (\<lambda>(b, stamps). received b stamps) cs) ps = (ts', st')"
  shows "(list_all finished ts' \<longrightarrow>
            map (\<lambda>t. case t of Finished r \<Rightarrow> status r | _ \<Rightarrow> 0) ts' =
              replicate (length cs) 201 \<and>
            length (reviewsOfItem st' i) = length cs \<and>
            list_all (\<lambda>r. rating r = 5) (reviewsOfItem st' i) \<and>
            (\<exists>it'. selectItem st' i = [it'] \<and> averageRating it' = 5 \<and>
                   1 \<le> totalReviews it' \<and> totalReviews it' \<le> int (length cs))) \<and>
         (ps = serialSchedule 0 (length cs) \<longrightarrow>
            list_all finished ts' \<and>
            (\<exists>it'. selectItem st' i = [it'] \<and> totalReviews it' = int (length cs)))"
proof -
  let ?ts = "map (\<lambda>(b, stamps). received b stamps) cs"
  from item none valid have "fiveInv i st ?ts"
    by (rule received_fiveInv)
  then have "fiveInv i (snd (interleave st ?ts ps)) (fst (interleave st ?ts ps))"
    by (rule interleave_fiveInv)
  then have inv: "fiveInv i st' ts'"
    by (simp add: run)
  have len: "length ts' = length cs"
    using length_interleave [of st ?ts ps] by (simp add: run)
  have any: "list_all finished ts' \<longrightarrow>
            map (\<lambda>t. case t of Finished r \<Rightarrow> status r | _ \<Rightarrow> 0) ts' =
              replicate (length cs) 201 \<and>
            length (reviewsOfItem st' i) = length cs \<and>
            list_all (\<lambda>r. rating r = 5) (reviewsOfItem st' i) \<and>
            (\<exists>it'. selectItem st' i = [it'] \<and> averageRating it' = 5 \<and>
                   1 \<le> totalReviews it' \<and> totalReviews it' \<le> int (length cs))"
  proof
    assume fin: "list_all finished ts'"
    from inv have cnt: "length (reviewsOfItem st' i) = sum_list (map inserts ts')"
      and five: "list_all (\<lambda>r. rating r = 5) (reviewsOfItem st' i)"
      and tasks: "list_all (fiveTask i (length (reviewsOfItem st' i))) ts'"
      unfolding fiveInv_def by blast+
    from cnt fin len have n: "length (reviewsOfItem st' i) = length cs"
      by (simp add: inserts_finished)
    from some len obtain t rest where "ts' = t # rest"
      by (cases ts') auto
    with fin have ex: "list_ex finished ts'"
      by simp
    with inv obtain it' :: item where "selectItem st' i = [it']" "averageRating it' = 5"
      "1 \<le> totalReviews it'" "totalReviews it' \<le> int (length (reviewsOfItem st' i))"
      by (auto simp: fiveInv_def split: list.splits)
    with n have "\<exists>it'. selectItem st' i = [it'] \<and> averageRating it' = 5 \<and>
                   1 \<le> totalReviews it' \<and> totalReviews it' \<le> int (length cs)"
      by auto
    moreover from statuses_finished [OF fin tasks] len
    have "map (\<lambda>t. case t of Finished r \<Rightarrow> status r | _ \<Rightarrow> 0) ts' = replicate (length cs) 201"
      by simp
    ultimately show "map (\<lambda>t. case t of Finished r \<Rightarrow> status r | _ \<Rightarrow> 0) ts' =
              replicate (length cs) 201 \<and>
            length (reviewsOfItem st' i) = length cs \<and>
            list_all (\<lambda>r. rating r = 5) (reviewsOfItem st' i) \<and>
            (\<exists>it'. selectItem st' i = [it'] \<and> averageRating it' = 5 \<and>
                   1 \<le> totalReviews it' \<and> totalReviews it' \<le> int (length cs))"
      using n five by blast
  qed
  have serial: "ps = serialSchedule 0 (length cs) \<longrightarrow>
            list_all finished ts' \<and>
            (\<exists>it'. selectItem st' i = [it'] \<and> totalReviews it' = int (length cs))"
  proof
    assume ps: "ps = serialSchedule 0 (length cs)"
    from serial_is_run [of "[]" 0 st cs] run ps
    have st': "st' = run st (map (\<lambda>(b, stamps). create b stamps) cs)"
      and fin: "list_all finished ts'"
      by simp_all
    from item none have "fiveStarItem st i 0"
      by (simp add: fiveStarItem_def)
    from run_five [OF valid this] have "fiveStarItem st' i (length cs)"
      by (simp add: st')
    with some have "\<exists>it'. selectItem st' i = [it'] \<and> totalReviews it' = int (length cs)"
      by (auto simp: fiveStarItem_def split: list.splits)
    with fin show "list_all finished ts' \<and>
            (\<exists>it'. selectItem st' i = [it'] \<and> totalReviews it' = int (length cs))"
      by (rule conjI)
  qed
  from any serial show ?thesis
    by (rule conjI)
qed

theorem concurrent_creates_witness:
  "selectItem freshStore 1 = [exampleItem 1] \<and>
   reviewsOfItem freshStore 1 = [] \<and>
   list_all (\<lambda>(b, stamps). validFive 1 b)
     [(fiveStars, ''a'', ''a'', ''a''), (fiveStarsOther, ''b'', ''b'', ''b'')] \<and>
   list_all finished (fst (interleave freshStore
     (map (\<lambda>(b, stamps). received b stamps)
        [(fiveStars, ''a'', ''a'', ''a''), (fiveStarsOther, ''b'', ''b'', ''b'')])
     [0, 1, 1, 0, 0, 1, 1, 0])) \<and>
   length (reviewsOfItem (snd (interleave freshStore
     (map (\<lambda>(b, stamps). received b stamps)
        [(fiveStars, ''a'', ''a'', ''a''), (fiveStarsOther, ''b'', ''b'', ''b'')])
     [0, 1, 1, 0, 0, 1, 1, 0])) 1) = 2 \<and>
   (\<exists>it'. selectItem (snd (interleave freshStore
      (map (\<lambda>(b, stamps). received b stamps)
         [(fiveStars, ''a'', ''a'', ''a''), (fiveStarsOther, ''b'', ''b'', ''b'')])
      [0, 1, 1, 0, 0, 1, 1, 0])) 1 = [it'] \<and>
      averageRating it' = 5 \<and> 1 \<le> totalReviews it' \<and> totalReviews it' \<le> 2) \<and>
   (\<exists>it'. selectItem (snd (interleave freshStore
      (map (\<lambda>(b, stamps). received b stamps)
         [(fiveStars, ''a'', ''a'', ''a''), (fiveStarsOther, ''b'', ''b'', ''b'')])
      (serialSchedule 0 2))) 1 = [it'] \<and>
      totalReviews it' = 2)"
proof -
  let ?cs = "[(fiveStars, ''a'', ''a'', ''a''), (fiveStarsOther, ''b'', ''b'', ''b'')]"
  let ?ts = "map (\<lambda>(b, stamps). received b stamps) ?cs"
  let ?ps = "[0, 1, 1, 0, 0, 1, 1, 0] :: nat list"
  have h1: "selectItem freshStore 1 = [exampleItem 1]"
    by (simp add: example_defs selectItem_def)
  have h2: "reviewsOfItem freshStore 1 = []"
    by (simp add: example_defs reviewsOfItem_def)
  have h3: "?cs \<noteq> []"
    by simp
  have v1: "validFive 1 fiveStars"
    by (simp add: validFive_def example_defs js_defs Let_def)
  have v2: "validFive 1 fiveStarsOther"
    by (simp add: validFive_def example_defs js_defs Let_def)
  from v1 v2 have h4: "list_all (\<lambda>(b, stamps). validFive 1 b) ?cs"
    by simp
  have len: "length ?cs = 2"
    by simp
  have h5: "list_all finished (fst (interleave freshStore ?ts ?ps))"
    by (simp add: example_defs js_defs store_defs writeItemRating_def received_def Let_def)
  have r1: "interleave freshStore ?ts ?ps =
      (fst (interleave freshStore ?ts ?ps), snd (interleave freshStore ?ts ?ps))"
    by simp
  have r2: "interleave freshStore ?ts (serialSchedule 0 (length ?cs)) =
      (fst (interleave freshStore ?ts (serialSchedule 0 (length ?cs))),
       snd (interleave freshStore ?ts (serialSchedule 0 (length ?cs))))"
    by simp
  from concurrent_creates [OF h1 h2 h3 h4 r1] h5
  have a: "length (reviewsOfItem (snd (interleave freshStore ?ts ?ps)) 1) = length ?cs"
    and b: "\<exists>it'. selectItem (snd (interleave freshStore ?ts ?ps)) 1 = [it'] \<and>
      averageRating it' = 5 \<and> 1 \<le> totalReviews it' \<and> totalReviews it' \<le> int (length ?cs)"
    by blast+
  from concurrent_creates [OF h1 h2 h3 h4 r2]
  have c: "\<exists>it'. selectItem (snd (interleave freshStore ?ts (serialSchedule 0 (length ?cs)))) 1 = [it'] \<and>
      totalReviews it' = int (length ?cs)"
    by blast
  from a b c have "length (reviewsOfItem (snd (interleave freshStore ?ts ?ps)) 1) = 2 \<and>
     (\<exists>it'. selectItem (snd (interleave freshStore ?ts ?ps)) 1 = [it'] \<and>
        averageRating it' = 5 \<and> 1 \<le> totalReviews it' \<and> totalReviews it' \<le> 2) \<and>
     (\<exists>it'. selectItem (snd (interleave freshStore ?ts (serialSchedule 0 2))) 1 = [it'] \<and>
        totalReviews it' = 2)"
    unfolding len by simp
  with h1 h2 h4 h5 show ?thesis
    by blast
qed

text \<open>
  The code has no lock and no transaction around the recomputation, and the claim fails
  for handlers that interleave. Two requests create a review of rating 5 for item 1: the
  first reads the item's reviews before the second inserts its review, and writes its
  aggregate last. Both are answered 201, the store holds two reviews of rating 5,
  \<open>averageRating\<close> of item 1 is 5, and \<open>totalReviews\<close> of item 1 is 1.
\<close>

theorem lost_update:
  "map totalReviews (items (snd (interleave freshStore
      [Received (Some fiveStars) ''a'' ''a'' ''a'', Received (Some fiveStarsOther) ''b'' ''b'' ''b'']
      [0, 0, 0, 1, 1, 1, 1, 0]))) = [1, 0] \<and>
   map averageRating (items (snd (interleave freshStore
      [Received (Some fiveStars) ''a'' ''a'' ''a'', Received (Some fiveStarsOther) ''b'' ''b'' ''b'']
      [0, 0, 0, 1, 1, 1, 1, 0]))) = [5, 0] \<and>
   map rating (reviews (snd (interleave freshStore
      [Received (Some fiveStars) ''a'' ''a'' ''a'', Received (Some fiveStarsOther) ''b'' ''b'' ''b'']
      [0, 0, 0, 1, 1, 1, 1, 0]))) = [5, 5] \<and>
   map (\<lambda>t. case t of Finished r \<Rightarrow> status r | _ \<Rightarrow> 0) (fst (interleave freshStore
      [Received (Some fiveStars) ''a'' ''a'' ''a'', Received (Some fiveStarsOther) ''b'' ''b'' ''b'']
      [0, 0, 0, 1, 1, 1, 1, 0])) = [201, 201]"
  by (simp add: example_defs js_defs store_defs writeItemRating_def Let_def)

end
